theory Spec2Isabelle
  imports Complex_Main
begin

section \<open>JavaScript numbers and arrays\<close>

text \<open>
  The plugin computes with JavaScript numbers. They are modelled as exact rationals
  extended with the special values of the language (the two infinities and NaN), so
  that a division by zero or an addition to \<open>undefined\<close> is a value of the model as
  it is a value of the program. Rounding error and the sign of zero are not modelled:
  the properties below are stated "floating-point tolerance aside".
\<close>

datatype jsnum = Fin rat | PInf | NInf | NaN

fun js_neg :: "jsnum \<Rightarrow> jsnum" where
  "js_neg (Fin a) = Fin (- a)"
| "js_neg PInf = NInf"
| "js_neg NInf = PInf"
| "js_neg NaN = NaN"

fun js_add :: "jsnum \<Rightarrow> jsnum \<Rightarrow> jsnum" where
  "js_add (Fin a) (Fin b) = Fin (a + b)"
| "js_add NaN _ = NaN"
| "js_add _ NaN = NaN"
| "js_add PInf NInf = NaN"
| "js_add NInf PInf = NaN"
| "js_add PInf _ = PInf"
| "js_add _ PInf = PInf"
| "js_add NInf _ = NInf"
| "js_add _ NInf = NInf"

definition js_sub :: "jsnum \<Rightarrow> jsnum \<Rightarrow> jsnum" where
  "js_sub a b = js_add a (js_neg b)"

fun js_sign :: "jsnum \<Rightarrow> int" where
  "js_sign (Fin a) = (if a < 0 then - 1 else if a = 0 then 0 else 1)"
| "js_sign PInf = 1"
| "js_sign NInf = - 1"
| "js_sign NaN = 0"

definition signed_inf :: "int \<Rightarrow> jsnum" where
  "signed_inf s = (if s = 0 then NaN else if 0 < s then PInf else NInf)"

fun js_mul :: "jsnum \<Rightarrow> jsnum \<Rightarrow> jsnum" where
  "js_mul (Fin a) (Fin b) = Fin (a * b)"
| "js_mul NaN _ = NaN"
| "js_mul _ NaN = NaN"
| "js_mul x y = signed_inf (js_sign x * js_sign y)"

fun js_div :: "jsnum \<Rightarrow> jsnum \<Rightarrow> jsnum" where
  "js_div (Fin a) (Fin b) = (if b = 0 then signed_inf (js_sign (Fin a)) else Fin (a / b))"
| "js_div NaN _ = NaN"
| "js_div _ NaN = NaN"
| "js_div (Fin a) _ = Fin 0"
| "js_div x (Fin b) = signed_inf (js_sign x * (if b < 0 then - 1 else 1))"
| "js_div _ _ = NaN"

text \<open>The comparisons \<open><=\<close> and \<open><\<close>: every comparison with NaN is false.\<close>

fun js_le :: "jsnum \<Rightarrow> jsnum \<Rightarrow> bool" where
  "js_le (Fin a) (Fin b) = (a \<le> b)"
| "js_le NaN _ = False"
| "js_le _ NaN = False"
| "js_le NInf _ = True"
| "js_le _ PInf = True"
| "js_le _ _ = False"

fun js_lt :: "jsnum \<Rightarrow> jsnum \<Rightarrow> bool" where
  "js_lt (Fin a) (Fin b) = (a < b)"
| "js_lt NaN _ = False"
| "js_lt _ NaN = False"
| "js_lt PInf _ = False"
| "js_lt _ NInf = False"
| "js_lt _ _ = True"

text \<open>\<open>Math.min\<close> and \<open>Math.max\<close> of two numbers: NaN as soon as one argument is.\<close>

fun js_min :: "jsnum \<Rightarrow> jsnum \<Rightarrow> jsnum" where
  "js_min NaN _ = NaN"
| "js_min _ NaN = NaN"
| "js_min a b = (if js_le a b then a else b)"

fun js_max :: "jsnum \<Rightarrow> jsnum \<Rightarrow> jsnum" where
  "js_max NaN _ = NaN"
| "js_max _ NaN = NaN"
| "js_max a b = (if js_le a b then b else a)"

text \<open>Truthiness of a number (\<open>!x\<close> is its negation): zero and NaN are falsy.\<close>

fun js_truthy :: "jsnum \<Rightarrow> bool" where
  "js_truthy (Fin a) = (a \<noteq> 0)"
| "js_truthy NaN = False"
| "js_truthy _ = True"

text \<open>
  An array of numbers is a list of slots; \<open>None\<close> is a hole, which reads as
  \<open>undefined\<close>. Holes appear when the program assigns beyond the end of an array.
\<close>

type_synonym jsarray = "jsnum option list"

definition fins :: "rat list \<Rightarrow> jsarray" where
  "fins rs = map (\<lambda>r. Some (Fin r)) rs"

text \<open>
  \<open>array.splice( start, deleteCount, ...items )\<close> for a start that is not negative:
  the pair of the removed elements and the array afterwards. A start or a count beyond
  the end is cut at the end, which is what \<open>take\<close> and \<open>drop\<close> do.
\<close>

definition splice :: "nat \<Rightarrow> nat \<Rightarrow> 'a list \<Rightarrow> 'a list \<Rightarrow> 'a list \<times> 'a list" where
  "splice start deleteCount items xs =
     (take deleteCount (drop start xs), take start xs @ items @ drop (start + deleteCount) xs)"

text \<open>
  \<open>array[ i ] += v\<close>. Within the array the slot is read, added to and written (a hole
  reads as \<open>undefined\<close>, and \<open>undefined + v\<close> is NaN). Beyond the end the array is
  extended: holes up to \<open>i\<close>, and NaN at \<open>i\<close>.
\<close>

definition add_at :: "nat \<Rightarrow> jsnum \<Rightarrow> jsarray \<Rightarrow> jsarray" where
  "add_at i v xs =
     (if i < length xs
      then xs[i := Some (case xs ! i of None \<Rightarrow> NaN | Some w \<Rightarrow> js_add w v)]
      else xs @ replicate (i - length xs) None @ [Some NaN])"

text \<open>\<open>array[ i ] = v\<close>, which extends the array with holes in the same way.\<close>

definition set_at :: "nat \<Rightarrow> jsnum \<Rightarrow> jsarray \<Rightarrow> jsarray" where
  "set_at i v xs =
     (if i < length xs then xs[i := Some v]
      else xs @ replicate (i - length xs) None @ [Some v])"

section \<open>Strings\<close>

text \<open>\<open>string.split( ',' )\<close>: the empty string splits into one empty token.\<close>

fun split_comma :: "string \<Rightarrow> string list" where
  "split_comma [] = [[]]"
| "split_comma (c # cs) =
     (if c = CHR '','' then [] # split_comma cs
      else (case split_comma cs of [] \<Rightarrow> [[c]] | t # ts \<Rightarrow> (c # t) # ts))"

text \<open>\<open>array.join( ',' )\<close> of an array of strings.\<close>

fun join_comma :: "string list \<Rightarrow> string" where
  "join_comma [] = []"
| "join_comma [t] = t"
| "join_comma (t # ts) = t @ '','' @ join_comma ts"

section \<open>The width consistency post-fixer\<close>

text \<open>
  \<open>_registerPostFixer\<close> of \<open>TableColumnResizeEditing\<close>. A cell of the document model
  is known by its identity; the plugin's \<open>_columnIndexMap\<close> maps a cell to the column
  index it had when the fixer last saw it.
\<close>

type_synonym cell = nat

type_synonym column_index_map = "cell \<Rightarrow> nat option"

datatype error = TypeError

text \<open>
  What the fixer reads of one table yielded by \<open>getChangedTables( model )\<close>: the
  \<open>columnWidths\<close> attribute (\<open>None\<close> when the table has none, where \<open>getAttribute\<close>
  returns \<open>undefined\<close>), the slots \<open>{ cell, column }\<close> yielded by
  \<open>new TableWalker( table )\<close> in order, the result of \<open>getColumns( table )\<close>, and the
  result of \<open>getColumnMinWidthAsPercentage( table, editor )\<close>, which is measured on the
  rendered table.
\<close>

record changed_table =
  columnWidthsAttribute :: "string option"
  tableSlots :: "(cell \<times> nat) list"
  numberOfColumns :: nat
  columnMinWidthAsPercentage :: jsnum

text \<open>
  Modelled from the spec: \<open>createFilledArray\<close> of \<open>./utils\<close>, a module that is missing
  from the sources. The fixer "splices that many new columns of that minimum width": an
  array of the given length filled with the given value.
\<close>

definition createFilledArray :: "nat \<Rightarrow> jsnum \<Rightarrow> jsarray" where
  "createFilledArray n v = replicate n (Some v)"

text \<open>
  Modelled from the spec: \<open>sumArray\<close> of \<open>./utils\<close>, a module that is missing from the
  sources ("array summation"): the elements added up from zero, left to right; holes are
  passed over.
\<close>

definition sumArray :: "jsarray \<Rightarrow> jsnum" where
  "sumArray xs = foldl (\<lambda>acc x. case x of None \<Rightarrow> acc | Some w \<Rightarrow> js_add acc w) (Fin 0) xs"

text \<open>The variables of the loop over the slots of one table.\<close>

record fixer_loop =
  columnWidths :: jsarray
  columnIndexMap :: column_index_map
  isColumnInsertionHandled :: bool
  isColumnDeletionHandled :: bool
  changed :: bool

text \<open>(3.1) The branch \<open>if ( isColumnInsertion )\<close> of the loop body.\<close>

definition handleColumnInsertion :: "jsnum \<Rightarrow> cell \<Rightarrow> nat \<Rightarrow> nat \<Rightarrow> fixer_loop \<Rightarrow> fixer_loop" where
  "handleColumnInsertion columnMinWidth c previousColumn column st =
     (let st' =
        (if \<not> isColumnInsertionHandled st
         then st\<lparr>columnWidths :=
                    snd (splice previousColumn 0
                           (createFilledArray (column - previousColumn) columnMinWidth)
                           (columnWidths st)),
                 isColumnInsertionHandled := True\<rparr>
         else st)
      in st'\<lparr>columnIndexMap := (columnIndexMap st')(c \<mapsto> column), changed := True\<rparr>)"

text \<open>(3.1) The branch \<open>if ( isColumnDeletion )\<close> of the loop body.\<close>

definition handleColumnDeletion :: "cell \<Rightarrow> nat \<Rightarrow> nat \<Rightarrow> fixer_loop \<Rightarrow> fixer_loop" where
  "handleColumnDeletion c previousColumn column st =
     (let st' =
        (if \<not> isColumnDeletionHandled st
         then (let columnToExpand = (if 0 < column then column - 1 else column);
                   removedColumnWidths =
                     fst (splice column (previousColumn - column) [] (columnWidths st));
                   remaining =
                     snd (splice column (previousColumn - column) [] (columnWidths st))
               in st\<lparr>columnWidths :=
                         add_at columnToExpand (sumArray removedColumnWidths) remaining,
                       isColumnDeletionHandled := True\<rparr>)
         else st)
      in st'\<lparr>columnIndexMap := (columnIndexMap st')(c \<mapsto> column), changed := True\<rparr>)"

text \<open>The body of \<open>for ( const { cell, column } of new TableWalker( table ) )\<close>.\<close>

definition walk_slot :: "jsnum \<Rightarrow> fixer_loop \<Rightarrow> cell \<times> nat \<Rightarrow> fixer_loop" where
  "walk_slot columnMinWidth st slot =
     (let c = fst slot; column = snd slot
      in case columnIndexMap st c of
           None \<Rightarrow> st\<lparr>columnIndexMap := (columnIndexMap st)(c \<mapsto> column), changed := True\<rparr>
         | Some previousColumn \<Rightarrow>
             (let st1 = (if previousColumn < column
                         then handleColumnInsertion columnMinWidth c previousColumn column st
                         else st)
              in if column < previousColumn
                 then handleColumnDeletion c previousColumn column st1
                 else st1))"

fun walk_table :: "jsnum \<Rightarrow> fixer_loop \<Rightarrow> (cell \<times> nat) list \<Rightarrow> fixer_loop" where
  "walk_table columnMinWidth st [] = st"
| "walk_table columnMinWidth st (slot # slots) =
     walk_table columnMinWidth (walk_slot columnMinWidth st slot) slots"

text \<open>
  The token of one slot in \<open>columnWidths.map( width => `${ width }%` )\<close>, as
  \<open>join\<close> then sees it: \<open>map\<close> passes over a hole, and \<open>join\<close> renders it as the
  empty string. The conversion of a number to a string is a parameter.
\<close>

definition percentToken :: "(jsnum \<Rightarrow> string) \<Rightarrow> jsnum option \<Rightarrow> string" where
  "percentToken toStr slot =
     (case slot of None \<Rightarrow> [] | Some width \<Rightarrow> toStr width @ ''%'')"

definition serializeWidths :: "(jsnum \<Rightarrow> string) \<Rightarrow> jsarray \<Rightarrow> string" where
  "serializeWidths toStr ws = join_comma (map (percentToken toStr) ws)"

text \<open>(3.2) Columns added or removed at the end of the table.\<close>

definition handleTableEnd :: "jsnum \<Rightarrow> nat \<Rightarrow> jsarray \<Rightarrow> jsarray" where
  "handleTableEnd columnMinWidth n ws =
     (let isColumnInsertionAtEnd = length ws < n;
          isColumnDeletionAtEnd = n < length ws;
          ws1 = (if isColumnInsertionAtEnd
                 then snd (splice (length ws) 0
                             (createFilledArray (n - length ws) columnMinWidth) ws)
                 else ws)
      in if isColumnDeletionAtEnd
         then (let removedColumnWidths = fst (splice n (length ws1 - n) [] ws1);
                   remaining = snd (splice n (length ws1 - n) [] ws1)
               in if n = 0 then remaining
                  else add_at (n - 1) (sumArray removedColumnWidths) remaining)
         else ws1)"

text \<open>
  What one iteration of \<open>for ( const table of getChangedTables( model ) )\<close> leaves: the
  width array that is serialised, the flags of the iteration, the serialised string,
  whether \<open>writer.setAttribute\<close> was called with it, the attribute of the table
  afterwards, and the map and the \<open>changed\<close> flag as the next iteration finds them.
\<close>

record table_fix =
  fixedWidths :: jsarray
  insertionHandled :: bool
  deletionHandled :: bool
  insertionAtEnd :: bool
  deletionAtEnd :: bool
  serialized :: string
  attributeWritten :: bool
  attributeAfter :: string
  mapAfter :: column_index_map
  changedAfter :: bool

text \<open>
  One iteration. The function \<open>normalizeColumnWidths\<close> of \<open>./utils\<close>, a module that
  is missing from the sources, is the parameter \<open>normalizer\<close>, and the conversion of a
  number to a string is the parameter \<open>toStr\<close>: what is proved of the fixer holds for
  every pair of such functions. A table without the attribute
  makes \<open>table.getAttribute( 'columnWidths' ).split( ',' )\<close> a call of \<open>split\<close> on
  \<open>undefined\<close>, which throws a TypeError. In \<open>columnWidths[ numberOfColumns - 1 ] += ...\<close>
  the index \<open>-1\<close> of a table of no column names a property, not an element.
\<close>

definition fix_table ::
  "(string list \<Rightarrow> jsnum list) \<Rightarrow> (jsnum \<Rightarrow> string) \<Rightarrow> column_index_map \<Rightarrow> bool \<Rightarrow>
     changed_table \<Rightarrow> error + table_fix" where
  "fix_table normalizer toStr cmap ch table =
     (case columnWidthsAttribute table of
        None \<Rightarrow> Inl TypeError
      | Some attr \<Rightarrow>
          (let st = walk_table (columnMinWidthAsPercentage table)
                      \<lparr>columnWidths = map Some (normalizer (split_comma attr)),
                       columnIndexMap = cmap,
                       isColumnInsertionHandled = False,
                       isColumnDeletionHandled = False,
                       changed = ch\<rparr>
                      (tableSlots table);
               ws = handleTableEnd (columnMinWidthAsPercentage table) (numberOfColumns table)
                      (columnWidths st);
               columnWidthsAttributeNew = serializeWidths toStr ws
           in Inr \<lparr>fixedWidths = ws,
                   insertionHandled = isColumnInsertionHandled st,
                   deletionHandled = isColumnDeletionHandled st,
                   insertionAtEnd = (length (columnWidths st) < numberOfColumns table),
                   deletionAtEnd = (numberOfColumns table < length (columnWidths st)),
                   serialized = columnWidthsAttributeNew,
                   attributeWritten = (attr \<noteq> columnWidthsAttributeNew),
                   attributeAfter = columnWidthsAttributeNew,
                   mapAfter = columnIndexMap st,
                   changedAfter = (changed st \<or> attr \<noteq> columnWidthsAttributeNew)\<rparr>))"

text \<open>
  The loop over the changed tables: an exception leaves the callback at once. The
  callback starts with \<open>changed = false\<close> and returns the flag of the last iteration.
\<close>

fun fix_tables ::
  "(string list \<Rightarrow> jsnum list) \<Rightarrow> (jsnum \<Rightarrow> string) \<Rightarrow> column_index_map \<Rightarrow> bool \<Rightarrow>
     changed_table list \<Rightarrow> error + table_fix list" where
  "fix_tables normalizer toStr cmap ch [] = Inr []"
| "fix_tables normalizer toStr cmap ch (table # tables) =
     (case fix_table normalizer toStr cmap ch table of
        Inl e \<Rightarrow> Inl e
      | Inr r \<Rightarrow>
          (case fix_tables normalizer toStr (mapAfter r) (changedAfter r)
                  tables of
             Inl e \<Rightarrow> Inl e
           | Inr rs \<Rightarrow> Inr (r # rs)))"

definition postFixer ::
  "(string list \<Rightarrow> jsnum list) \<Rightarrow> (jsnum \<Rightarrow> string) \<Rightarrow> column_index_map \<Rightarrow>
     changed_table list \<Rightarrow> error + table_fix list" where
  "postFixer normalizer toStr cmap tables =
     fix_tables normalizer toStr cmap False tables"

section \<open>The resize interaction controller\<close>

text \<open>
  The handlers of the pointer events of \<open>TableColumnResizeEditing\<close>, over one table. The
  rendered table is known by the width styles of the \<open><col>\<close> elements of its
  \<open><colgroup>\<close> (no colgroup: \<open>None\<close>; a \<open><col>\<close> without a width style: \<open>None\<close>), the
  width style of the enclosing \<open><figure>\<close>, the class \<open>ck-table-resized\<close> of the
  \<open><table>\<close>, and the resizer elements that carry the class
  \<open>ck-table-column-resizer__active\<close>.
\<close>

record view_table =
  viewColgroup :: "string option list option"
  viewFigureStyleWidth :: "string option"
  viewTableResized :: bool
  viewActiveResizers :: "nat set"

text \<open>The attributes of the table in the document model.\<close>

record model_table =
  modelColumnWidths :: "string option"
  modelTableWidth :: "string option"
  modelHasTableAlignment :: bool

text \<open>
  \<open>this._resizingData\<close>. The view elements \<open>viewLeftColumn\<close> and \<open>viewRightColumn\<close> are
  kept as positions in the colgroup; \<open>None\<close> is \<open>undefined\<close>, which
  \<open>viewColgroup.getChild\<close> returns beyond the last child. The two column widths are
  reads of an array and may be \<open>undefined\<close> as well.
\<close>

record resizing_data =
  columnPosition :: jsnum
  isRightEdge :: bool
  isTableCentered :: bool
  isLtrContent :: bool
  viewResizer :: nat
  viewLeftColumn :: "nat option"
  viewRightColumn :: "nat option"
  viewFigureParentWidth :: jsnum
  viewFigureWidth :: jsnum
  tableWidth :: jsnum
  leftColumnWidth :: "jsnum option"
  rightColumnWidth :: "jsnum option"

text \<open>
  Modelled from the spec: the two commands \<open>resizeTableWidth\<close> and \<open>resizeColumnWidths\<close>
  (\<open>TableWidthResizeCommand\<close>, \<open>TableColumnWidthsCommand\<close>), which are missing from the
  sources: "(a) set the table's width attribute and its columns' width attribute
  together; (b) set only the columns' width attribute". The first carries the table
  width and the column widths, the second the column widths. The executed commands are
  recorded. How the conversion renders the view again after a command is outside the
  handlers and is not modelled.
\<close>

datatype command = ResizeTableWidth string string | ResizeColumnWidths string

record controller =
  isResizingActive :: bool
  isResizingAllowed :: bool
  resizingData :: "resizing_data option"
  trackerMap :: column_index_map
  view :: view_table
  model :: model_table
  executed :: "command list"

definition execute :: "command \<Rightarrow> controller \<Rightarrow> controller" where
  "execute cmd s =
     (case cmd of
        ResizeTableWidth tw cw \<Rightarrow>
          s\<lparr>model := (model s)\<lparr>modelTableWidth := Some tw, modelColumnWidths := Some cw\<rparr>,
            executed := executed s @ [cmd]\<rparr>
      | ResizeColumnWidths cw \<Rightarrow>
          s\<lparr>model := (model s)\<lparr>modelColumnWidths := Some cw\<rparr>,
            executed := executed s @ [cmd]\<rparr>)"

text \<open>
  What a \<open>mousedown\<close> event brings: whether its target has the class
  \<open>ck-table-column-resizer\<close>, the target, \<open>clientX\<close>, and what the handler reads of the
  table of the target: the slots of its walker, each with the outer width of the DOM
  cell (\<open>getDomCellOuterWidth\<close>), the result of \<open>getColumns\<close>, the right edge of the cell
  of the resizer (\<open>getColumnEdgesIndexes( ... ).rightEdge\<close>), the widths in pixels of the
  parent of the figure, of the figure and of the table, and whether the content
  language is written right to left.
\<close>

record mousedown =
  targetIsResizer :: bool
  target :: nat
  clientX :: jsnum
  cellSlots :: "(cell \<times> nat \<times> jsnum) list"
  columns :: nat
  leftColumnIndex :: nat
  figureParentWidthPx :: jsnum
  figureWidthPx :: jsnum
  tableWidthPx :: jsnum
  rtl :: bool

text \<open>
  An argument of \<open>toPrecision\<close>, which the handlers call on numbers and, on release, on
  the width style of the figure (a string, or \<open>undefined\<close>). \<open>toPrecision\<close> (of
  \<open>./utils\<close>), the conversion of a number to a string and the constant
  \<open>COLUMN_MIN_WIDTH_IN_PIXELS\<close> (of \<open>./constants\<close>) are parameters of the handlers.
\<close>

datatype jsvalue = JNum jsnum | JStr string | JUndefined

text \<open>A number read from an array slot: \<open>undefined\<close> converts to NaN.\<close>

definition to_number :: "jsnum option \<Rightarrow> jsnum" where
  "to_number slot = (case slot of None \<Rightarrow> NaN | Some w \<Rightarrow> w)"

definition read_at :: "'a option list \<Rightarrow> nat \<Rightarrow> 'a option" where
  "read_at xs i = (if i < length xs then xs ! i else None)"

text \<open>
  Modelled from the spec: \<open>clamp\<close> of \<open>./utils\<close>, a module that is missing from the
  sources ("clamping"; "Clamp delta to ..."): the number, or the bound it passes.
\<close>

definition clamp :: "jsnum \<Rightarrow> jsnum \<Rightarrow> jsnum \<Rightarrow> jsnum" where
  "clamp x lo hi = (if js_le x lo then lo else if js_le hi x then hi else x)"

text \<open>
  \<open>_calculateDomColumnWidths\<close>: the array starts as \<open>Array( getColumns( modelTable ) )\<close>,
  all holes; a cell sets the width of its column when none is there yet (a hole, zero
  or NaN) or when it is narrower; a cell unknown to the column index map is added to it.
\<close>

definition measureSlot ::
  "(jsvalue \<Rightarrow> jsnum) \<Rightarrow> jsarray \<times> column_index_map \<Rightarrow> cell \<times> nat \<times> jsnum \<Rightarrow>
     jsarray \<times> column_index_map" where
  "measureSlot toPrecision acc cellSlot =
     (let columnWidthsInPx = fst acc; cmap = snd acc;
          c = fst cellSlot; column = fst (snd cellSlot); domCellWidth = snd (snd cellSlot);
          narrower = (case read_at columnWidthsInPx column of
                        None \<Rightarrow> True
                      | Some w \<Rightarrow> \<not> js_truthy w \<or> js_lt domCellWidth w)
      in (if narrower then set_at column (toPrecision (JNum domCellWidth)) columnWidthsInPx
          else columnWidthsInPx,
          if cmap c = None then cmap(c \<mapsto> column) else cmap))"

definition calculateDomColumnWidths ::
  "(jsvalue \<Rightarrow> jsnum) \<Rightarrow> nat \<Rightarrow> column_index_map \<Rightarrow> (cell \<times> nat \<times> jsnum) list \<Rightarrow>
     jsarray \<times> column_index_map" where
  "calculateDomColumnWidths toPrecision n cmap slots =
     foldl (measureSlot toPrecision) (replicate n None, cmap) slots"

text \<open>\<open>_insertColgroupElement\<close>: one \<open><col>\<close> for every slot of the array.\<close>

definition insertColgroupElement ::
  "(jsvalue \<Rightarrow> jsnum) \<Rightarrow> (jsnum \<Rightarrow> string) \<Rightarrow> jsarray \<Rightarrow> view_table \<Rightarrow> view_table" where
  "insertColgroupElement toPrecision toStr columnWidthsInPx v =
     v\<lparr>viewColgroup :=
         Some (map (\<lambda>slot. Some (toStr (toPrecision (JNum
                      (js_mul (js_div (to_number slot) (sumArray columnWidthsInPx)) (Fin 100))))
                    @ ''%''))
                 columnWidthsInPx)\<rparr>"

text \<open>\<open>_getResizingData\<close>, for the colgroup \<open>cols\<close> that the view table has by then.\<close>

definition getResizingData ::
  "mousedown \<Rightarrow> jsarray \<Rightarrow> string option list \<Rightarrow> model_table \<Rightarrow> resizing_data" where
  "getResizingData ev columnWidthsInPx cols modelTable =
     (let rightEdge = (Suc (leftColumnIndex ev) = columns ev)
      in \<lparr>columnPosition = clientX ev,
          isRightEdge = rightEdge,
          isTableCentered = (\<not> modelHasTableAlignment modelTable),
          isLtrContent = (\<not> rtl ev),
          viewResizer = target ev,
          viewLeftColumn =
            (if leftColumnIndex ev < length cols then Some (leftColumnIndex ev) else None),
          viewRightColumn =
            (if rightEdge then None
             else if leftColumnIndex ev + 1 < length cols then Some (leftColumnIndex ev + 1)
             else None),
          viewFigureParentWidth = figureParentWidthPx ev,
          viewFigureWidth = figureWidthPx ev,
          tableWidth = tableWidthPx ev,
          leftColumnWidth = read_at columnWidthsInPx (leftColumnIndex ev),
          rightColumnWidth =
            (if rightEdge then None else read_at columnWidthsInPx (leftColumnIndex ev + 1))\<rparr>)"

text \<open>\<open>_applyResizingAttributesToTable\<close>.\<close>

definition applyResizingAttributesToTable ::
  "(jsvalue \<Rightarrow> jsnum) \<Rightarrow> (jsnum \<Rightarrow> string) \<Rightarrow> resizing_data \<Rightarrow> view_table \<Rightarrow> view_table" where
  "applyResizingAttributesToTable toPrecision toStr d v =
     (let figureInitialPcWidth = js_div (viewFigureWidth d) (viewFigureParentWidth d)
      in v\<lparr>viewTableResized := True,
           viewActiveResizers := insert (viewResizer d) (viewActiveResizers v),
           viewFigureStyleWidth :=
             Some (toStr (toPrecision (JNum (js_mul figureInitialPcWidth (Fin 100)))) @ ''%'')\<rparr>)"

text \<open>\<open>_onMouseDownHandler\<close>.\<close>

definition onMouseDownHandler ::
  "(jsvalue \<Rightarrow> jsnum) \<Rightarrow> (jsnum \<Rightarrow> string) \<Rightarrow> controller \<Rightarrow> mousedown \<Rightarrow> controller" where
  "onMouseDownHandler toPrecision toStr s ev =
     (if \<not> targetIsResizer ev then s\<lparr>isResizingAllowed := False\<rparr>
      else if \<not> isResizingAllowed s then s
      else
        (let measured = calculateDomColumnWidths toPrecision (columns ev) (trackerMap s)
                          (cellSlots ev);
             columnWidthsInPx = fst measured;
             v1 = (case viewColgroup (view s) of
                     None \<Rightarrow> insertColgroupElement toPrecision toStr columnWidthsInPx (view s)
                   | Some cols \<Rightarrow> view s);
             cols = (case viewColgroup v1 of None \<Rightarrow> [] | Some cs \<Rightarrow> cs);
             d = getResizingData ev columnWidthsInPx cols (model s)
         in s\<lparr>isResizingActive := True,
              resizingData := Some d,
              trackerMap := snd measured,
              view := applyResizingAttributesToTable toPrecision toStr d v1\<rparr>))"

text \<open>
  The width style of a column or of the figure: a number of pixels as a percentage of a
  width, through \<open>toPrecision\<close> and the template \<open>`${ ... }%`\<close>.
\<close>

definition asPercentage ::
  "(jsvalue \<Rightarrow> jsnum) \<Rightarrow> (jsnum \<Rightarrow> string) \<Rightarrow> jsnum \<Rightarrow> jsnum \<Rightarrow> string" where
  "asPercentage toPrecision toStr px whole =
     toStr (toPrecision (JNum (js_div (js_mul px (Fin 100)) whole))) @ ''%''"

text \<open>The multiplier and the clamped offset \<open>dx\<close> of \<open>_onMouseMoveHandler\<close>.\<close>

definition multiplier :: "resizing_data \<Rightarrow> jsnum" where
  "multiplier d =
     js_mul (if isLtrContent d then Fin 1 else Fin (- 1))
            (if isRightEdge d \<and> isTableCentered d then Fin 2 else Fin 1)"

definition dxLowerBound :: "jsnum \<Rightarrow> resizing_data \<Rightarrow> jsnum" where
  "dxLowerBound minPx d = js_add (js_neg (to_number (leftColumnWidth d))) minPx"

definition dxUpperBound :: "jsnum \<Rightarrow> resizing_data \<Rightarrow> jsnum" where
  "dxUpperBound minPx d =
     (if isRightEdge d then js_sub (viewFigureParentWidth d) (tableWidth d)
      else js_sub (to_number (rightColumnWidth d)) minPx)"

definition dragOffset :: "jsnum \<Rightarrow> resizing_data \<Rightarrow> jsnum \<Rightarrow> jsnum" where
  "dragOffset minPx d x =
     clamp (js_mul (js_sub x (columnPosition d)) (multiplier d))
           (js_min (dxLowerBound minPx d) (Fin 0))
           (js_max (dxUpperBound minPx d) (Fin 0))"

text \<open>
  \<open>writer.setStyle( 'width', value, viewCol )\<close> on a \<open><col>\<close> of the colgroup. The
  element \<open>undefined\<close> makes the writer throw a TypeError; so does a view table without
  colgroup, which no press leaves.
\<close>

definition setColumnWidth :: "nat option \<Rightarrow> string \<Rightarrow> view_table \<Rightarrow> error + view_table" where
  "setColumnWidth col w v =
     (case col of
        None \<Rightarrow> Inl TypeError
      | Some i \<Rightarrow>
          (case viewColgroup v of
             None \<Rightarrow> Inl TypeError
           | Some cols \<Rightarrow> Inr (v\<lparr>viewColgroup := Some (cols[i := Some w])\<rparr>)))"

text \<open>
  The join of the width styles of the \<open><col>\<close> elements,
  \<open>[ ...viewColgroup.getChildren() ].map( viewCol => viewCol.getStyle( 'width' ) ).join( ',' )\<close>:
  \<open>join\<close> renders \<open>undefined\<close> as the empty string.
\<close>

definition joinedColumnWidths :: "string option list \<Rightarrow> string" where
  "joinedColumnWidths cols = join_comma (map (\<lambda>w. case w of None \<Rightarrow> [] | Some x \<Rightarrow> x) cols)"

text \<open>The truthiness of an attribute value: \<open>undefined\<close> and the empty string are falsy.\<close>

definition truthy :: "string option \<Rightarrow> bool" where
  "truthy a = (case a of None \<Rightarrow> False | Some x \<Rightarrow> x \<noteq> [])"

text \<open>
  The branch of \<open>_onMouseUpHandler\<close> that reverts the view when resizing is not allowed
  any more. \<open>columnWidths.shift()\<close> gives the tokens of the old attribute one by one and
  \<open>undefined\<close> when they are used up, which leaves the column without a usable width.
\<close>

definition restoredColumns :: "string \<Rightarrow> string option list \<Rightarrow> string option list" where
  "restoredColumns columnWidthsAttributeOld cols =
     map (read_at (map Some (split_comma columnWidthsAttributeOld))) [0 ..< length cols]"

definition revertView ::
  "string option \<Rightarrow> string option \<Rightarrow> bool \<Rightarrow> string option list \<Rightarrow> view_table \<Rightarrow> view_table" where
  "revertView columnWidthsAttributeOld tableWidthAttributeOld isTableWidthAttributeChanged cols v =
     (let v1 = (case columnWidthsAttributeOld of
                  None \<Rightarrow> v\<lparr>viewColgroup := None\<rparr>
                | Some w \<Rightarrow>
                    (if w \<noteq> [] then v\<lparr>viewColgroup := Some (restoredColumns w cols)\<rparr>
                     else v\<lparr>viewColgroup := None\<rparr>));
          v2 = (if isTableWidthAttributeChanged
                then (if truthy tableWidthAttributeOld
                      then v1\<lparr>viewFigureStyleWidth := tableWidthAttributeOld\<rparr>
                      else v1\<lparr>viewFigureStyleWidth := None\<rparr>)
                else v1)
      in if \<not> truthy columnWidthsAttributeOld \<and> \<not> truthy tableWidthAttributeOld
         then v2\<lparr>viewTableResized := False\<rparr>
         else v2)"

text \<open>
  \<open>_onMouseUpHandler\<close>. With a session open, \<open>this._resizingData\<close> is an object; the
  handlers never leave \<open>null\<close> there, where reading \<open>elements\<close> of it would throw.
\<close>

definition onMouseUpHandler ::
  "(jsvalue \<Rightarrow> jsnum) \<Rightarrow> (jsnum \<Rightarrow> string) \<Rightarrow> controller \<Rightarrow> error + controller" where
  "onMouseUpHandler toPrecision toStr s =
     (if \<not> isResizingActive s then Inr (s\<lparr>isResizingAllowed := True\<rparr>)
      else
        (case resizingData s of
           None \<Rightarrow> Inl TypeError
         | Some d \<Rightarrow>
             (case viewColgroup (view s) of
                None \<Rightarrow> Inl TypeError
              | Some cols \<Rightarrow>
                  (let columnWidthsAttributeOld = modelColumnWidths (model s);
                       columnWidthsAttributeNew = joinedColumnWidths cols;
                       isColumnWidthsAttributeChanged =
                         (columnWidthsAttributeOld \<noteq> Some columnWidthsAttributeNew);
                       tableWidthAttributeOld = modelTableWidth (model s);
                       tableWidthAttributeNew = viewFigureStyleWidth (view s);
                       isTableWidthAttributeChanged =
                         (tableWidthAttributeOld \<noteq> tableWidthAttributeNew);
                       s1 =
                         (if isColumnWidthsAttributeChanged \<or> isTableWidthAttributeChanged
                          then
                            (if isResizingAllowed s
                             then
                               (if isTableWidthAttributeChanged
                                then execute
                                       (ResizeTableWidth
                                          (toStr (toPrecision
                                             (case tableWidthAttributeNew of
                                                None \<Rightarrow> JUndefined
                                              | Some w \<Rightarrow> JStr w)) @ ''%'')
                                          columnWidthsAttributeNew) s
                                else execute (ResizeColumnWidths columnWidthsAttributeNew) s)
                             else s\<lparr>view := revertView columnWidthsAttributeOld
                                              tableWidthAttributeOld isTableWidthAttributeChanged
                                              cols (view s)\<rparr>)
                          else s)
                   in Inr (s1\<lparr>view := (view s1)\<lparr>viewActiveResizers :=
                                          viewActiveResizers (view s1) - {viewResizer d}\<rparr>,
                               isResizingActive := False,
                               resizingData := None\<rparr>)))))"

text \<open>\<open>_onMouseMoveHandler\<close>, for the \<open>clientX\<close> of the event.\<close>

definition onMouseMoveHandler ::
  "(jsvalue \<Rightarrow> jsnum) \<Rightarrow> (jsnum \<Rightarrow> string) \<Rightarrow> jsnum \<Rightarrow> controller \<Rightarrow> jsnum \<Rightarrow>
     error + controller" where
  "onMouseMoveHandler toPrecision toStr minPx s x =
     (if \<not> isResizingActive s then Inr s
      else if \<not> isResizingAllowed s then onMouseUpHandler toPrecision toStr s
      else
        (case resizingData s of
           None \<Rightarrow> Inl TypeError
         | Some d \<Rightarrow>
             (let dx = dragOffset minPx d x
              in if dx = Fin 0 then Inr s
                 else
                   (case setColumnWidth (viewLeftColumn d)
                           (asPercentage toPrecision toStr
                              (js_add (to_number (leftColumnWidth d)) dx) (tableWidth d))
                           (view s) of
                      Inl e \<Rightarrow> Inl e
                    | Inr v1 \<Rightarrow>
                        (if isRightEdge d
                         then Inr (s\<lparr>view := v1\<lparr>viewFigureStyleWidth :=
                                     Some (asPercentage toPrecision toStr
                                             (js_add (tableWidth d) dx)
                                             (viewFigureParentWidth d))\<rparr>\<rparr>)
                         else
                           (case setColumnWidth (viewRightColumn d)
                                   (asPercentage toPrecision toStr
                                      (js_sub (to_number (rightColumnWidth d)) dx)
                                      (tableWidth d))
                                   v1 of
                              Inl e \<Rightarrow> Inl e
                            | Inr v2 \<Rightarrow> Inr (s\<lparr>view := v2\<rparr>)))))))"

text \<open>
  The events of a session, and a run of the handlers over a list of events. The flag
  \<open>_isResizingAllowed\<close> is bound to the state of the editor and of the commands, which
  changes it from outside the handlers.
\<close>

datatype event = MouseDown mousedown | MouseMove jsnum | MouseUp | SetResizingAllowed bool

definition handle ::
  "(jsvalue \<Rightarrow> jsnum) \<Rightarrow> (jsnum \<Rightarrow> string) \<Rightarrow> jsnum \<Rightarrow> controller \<Rightarrow> event \<Rightarrow>
     error + controller" where
  "handle toPrecision toStr minPx s e =
     (case e of
        MouseDown ev \<Rightarrow> Inr (onMouseDownHandler toPrecision toStr s ev)
      | MouseMove x \<Rightarrow> onMouseMoveHandler toPrecision toStr minPx s x
      | MouseUp \<Rightarrow> onMouseUpHandler toPrecision toStr s
      | SetResizingAllowed b \<Rightarrow> Inr (s\<lparr>isResizingAllowed := b\<rparr>))"

fun run ::
  "(jsvalue \<Rightarrow> jsnum) \<Rightarrow> (jsnum \<Rightarrow> string) \<Rightarrow> jsnum \<Rightarrow> controller \<Rightarrow> event list \<Rightarrow>
     error + controller" where
  "run toPrecision toStr minPx s [] = Inr s"
| "run toPrecision toStr minPx s (e # es) =
     (case handle toPrecision toStr minPx s e of
        Inl err \<Rightarrow> Inl err
      | Inr s' \<Rightarrow> run toPrecision toStr minPx s' es)"

section \<open>Instances of the parameters\<close>

text \<open>
  The concrete evaluations below need a conversion of numbers to strings and a
  normalisation. \<open>numberToString\<close> writes a number in decimal notation: exactly, when
  it has at most twenty decimals, and cut after the twentieth otherwise.
\<close>

definition digit_char :: "nat \<Rightarrow> char" where
  "digit_char d = (if d < 10 then ''0123456789'' ! d else CHR ''?'')"

fun nat_digits :: "nat \<Rightarrow> string" where
  "nat_digits n = (if n < 10 then [digit_char n] else nat_digits (n div 10) @ [digit_char (n mod 10)])"

declare nat_digits.simps [simp del]

fun frac_digits :: "nat \<Rightarrow> rat \<Rightarrow> string" where
  "frac_digits 0 x = []"
| "frac_digits (Suc k) x =
     (if x = 0 then []
      else digit_char (nat \<lfloor>x * 10\<rfloor>) # frac_digits k (x * 10 - of_int \<lfloor>x * 10\<rfloor>))"

fun numberToString :: "jsnum \<Rightarrow> string" where
  "numberToString (Fin r) =
     (if r < 0 then ''-'' else []) @ nat_digits (nat \<lfloor>\<bar>r\<bar>\<rfloor>) @
     (if \<bar>r\<bar> = of_int \<lfloor>\<bar>r\<bar>\<rfloor> then [] else ''.'' @ frac_digits 20 (\<bar>r\<bar> - of_int \<lfloor>\<bar>r\<bar>\<rfloor>))"
| "numberToString PInf = ''Infinity''"
| "numberToString NInf = ''-Infinity''"
| "numberToString NaN = ''NaN''"

text \<open>
  \<open>parseFloat\<close> on a token such as \<open>33.5%\<close>: an optional sign, digits, an optional
  point and digits; what follows is ignored, and a token with no digit gives NaN.
\<close>

definition is_digit :: "char \<Rightarrow> bool" where
  "is_digit c = (c \<in> set ''0123456789'')"

definition digits_value :: "string \<Rightarrow> nat" where
  "digits_value ds = foldl (\<lambda>a c. 10 * a + (of_char c - 48)) 0 ds"

definition parseFloat :: "string \<Rightarrow> jsnum" where
  "parseFloat s =
     (let neg = (case s of [] \<Rightarrow> False | c # _ \<Rightarrow> c = CHR ''-'');
          s1 = (if neg then tl s else s);
          ip = takeWhile is_digit s1;
          r1 = dropWhile is_digit s1;
          fp = (case r1 of [] \<Rightarrow> [] | c # t \<Rightarrow> if c = CHR ''.'' then takeWhile is_digit t else [])
      in if ip = [] \<and> fp = [] then NaN
         else Fin ((if neg then - 1 else 1) *
                   (of_nat (digits_value ip) + of_nat (digits_value fp) / 10 ^ length fp)))"

text \<open>
  Modelled from the spec: \<open>normalizeColumnWidths\<close> of \<open>./utils\<close>, a module that is
  missing from the sources. "Parse current \<open>columnWidths\<close> into a sequence of numbers;
  normalize so they sum to exactly 100": every number is scaled by 100 over the total. In
  exact arithmetic the scaled numbers add up to 100 and no rounding remainder is left to
  redistribute.
\<close>

definition normalizeColumnWidths :: "string list \<Rightarrow> jsnum list" where
  "normalizeColumnWidths tokens =
     (let ws = map parseFloat tokens; total = sumArray (map Some ws)
      in map (\<lambda>w. js_div (js_mul w (Fin 100)) total) ws)"

text \<open>
  Modelled from the spec: \<open>toPrecision\<close> of \<open>./utils\<close>, a module that is missing from the
  sources ("precision rounding"). The instance rounds to two decimals, half up; a string
  is parsed first, and \<open>undefined\<close> gives NaN.
\<close>

fun roundTwo :: "jsnum \<Rightarrow> jsnum" where
  "roundTwo (Fin r) = Fin (of_int \<lfloor>r * 100 + 1 / 2\<rfloor> / 100)"
| "roundTwo x = x"

fun toPrecision :: "jsvalue \<Rightarrow> jsnum" where
  "toPrecision (JNum x) = roundTwo x"
| "toPrecision (JStr s) = roundTwo (parseFloat s)"
| "toPrecision JUndefined = NaN"

section \<open>Reading the slots against the tracker\<close>

text \<open>
  Three readings of the slots of a table against a column index map: every cell is
  either unknown to the map or stored at its current column; no cell known to the map
  is left of its stored column; none is right of it.
\<close>

definition settled :: "column_index_map \<Rightarrow> (cell \<times> nat) list \<Rightarrow> bool" where
  "settled cmap slots =
     list_all (\<lambda>slot. cmap (fst slot) = None \<or> cmap (fst slot) = Some (snd slot)) slots"

definition none_moved_left :: "column_index_map \<Rightarrow> (cell \<times> nat) list \<Rightarrow> bool" where
  "none_moved_left cmap slots =
     list_all (\<lambda>slot. case cmap (fst slot) of None \<Rightarrow> True | Some p \<Rightarrow> p \<le> snd slot) slots"

definition none_moved_right :: "column_index_map \<Rightarrow> (cell \<times> nat) list \<Rightarrow> bool" where
  "none_moved_right cmap slots =
     list_all (\<lambda>slot. case cmap (fst slot) of None \<Rightarrow> True | Some p \<Rightarrow> snd slot \<le> p) slots"

text \<open>
  The donation policy in the spec's words, for the columns \<open>col\<close> up to \<open>prev - 1\<close>
  deleted from the widths \<open>rs\<close>: "the freed width is added to the column immediately
  to the left of the deletion point, except when the deletion occurred at index 0, in
  which case the column to the right absorbs it". The fixer's array is compared with
  it below.
\<close>

definition donated :: "nat \<Rightarrow> nat \<Rightarrow> rat list \<Rightarrow> rat list" where
  "donated col prev rs =
     (if 0 < col
      then take (col - 1) rs @ [rs ! (col - 1) + sum_list (take (prev - col) (drop col rs))] @ drop prev rs
      else (rs ! prev + sum_list (take prev rs)) # drop (Suc prev) rs)"

text \<open>Every cell known to the map is stored at a column below \<open>k\<close>.\<close>

definition tracked_below :: "nat \<Rightarrow> column_index_map \<Rightarrow> (cell \<times> nat) list \<Rightarrow> bool" where
  "tracked_below k cmap slots =
     list_all (\<lambda>slot. case cmap (fst slot) of None \<Rightarrow> True | Some p \<Rightarrow> p < k) slots"

text \<open>
  The fixer run on a table and then run again with no change of structure in between:
  the second run finds the attribute and the map that the first run left, and the same
  slots, column count and minimum width. Each run is a call of the callback, which
  starts with \<open>changed = false\<close>.
\<close>

definition second_pass ::
  "(string list \<Rightarrow> jsnum list) \<Rightarrow> (jsnum \<Rightarrow> string) \<Rightarrow> column_index_map \<Rightarrow>
     changed_table \<Rightarrow> error + table_fix" where
  "second_pass normalizer toStr cmap table =
     (case fix_table normalizer toStr cmap False table of
        Inl e \<Rightarrow> Inl e
      | Inr r \<Rightarrow>
          fix_table normalizer toStr (mapAfter r) False
            (table\<lparr>columnWidthsAttribute := Some (attributeAfter r)\<rparr>))"

section \<open>Concrete tables and sessions\<close>

text \<open>
  A table of two columns that was never resized, and the same table with stored widths,
  in an editor that allows resizing; a press on the resizer of a column, for cells that
  are 100 pixels wide, a table of 200 pixels and a container of 400 pixels.
\<close>

definition neverResized :: controller where
  "neverResized =
     \<lparr>isResizingActive = False, isResizingAllowed = True, resizingData = None,
      trackerMap = Map.empty,
      view = \<lparr>viewColgroup = None, viewFigureStyleWidth = None, viewTableResized = False,
              viewActiveResizers = {}\<rparr>,
      model = \<lparr>modelColumnWidths = None, modelTableWidth = None,
               modelHasTableAlignment = False\<rparr>,
      executed = []\<rparr>"

definition resized :: controller where
  "resized =
     \<lparr>isResizingActive = False, isResizingAllowed = True, resizingData = None,
      trackerMap = Map.empty,
      view = \<lparr>viewColgroup = Some [Some ''50%'', Some ''50%''],
              viewFigureStyleWidth = Some ''50%'', viewTableResized = True,
              viewActiveResizers = {}\<rparr>,
      model = \<lparr>modelColumnWidths = Some ''50%,50%'', modelTableWidth = Some ''50%'',
               modelHasTableAlignment = False\<rparr>,
      executed = []\<rparr>"

definition pressOn :: "nat \<Rightarrow> rat \<Rightarrow> mousedown" where
  "pressOn i x =
     \<lparr>targetIsResizer = True, target = i, clientX = Fin x,
      cellSlots = [(0, 0, Fin 100), (1, 1, Fin 100)], columns = 2, leftColumnIndex = i,
      figureParentWidthPx = Fin 400, figureWidthPx = Fin 200, tableWidthPx = Fin 200,
      rtl = False\<rparr>"

text \<open>
  The session of a press on the right edge of a centred table that is 500 pixels wide
  in a container of 400 pixels, and the session of a press on an inner boundary.
\<close>

definition overflowingSession :: resizing_data where
  "overflowingSession =
     \<lparr>columnPosition = Fin 500, isRightEdge = True, isTableCentered = True,
      isLtrContent = True, viewResizer = 1, viewLeftColumn = Some 1, viewRightColumn = None,
      viewFigureParentWidth = Fin 400, viewFigureWidth = Fin 500, tableWidth = Fin 500,
      leftColumnWidth = Some (Fin 100), rightColumnWidth = None\<rparr>"

definition innerSession :: resizing_data where
  "innerSession =
     \<lparr>columnPosition = Fin 500, isRightEdge = False, isTableCentered = True,
      isLtrContent = True, viewResizer = 0, viewLeftColumn = Some 0, viewRightColumn = Some 1,
      viewFigureParentWidth = Fin 400, viewFigureWidth = Fin 200, tableWidth = Fin 200,
      leftColumnWidth = Some (Fin 100), rightColumnWidth = Some (Fin 100)\<rparr>"

section \<open>The loop over the slots\<close>

lemma foldl_sum_fins:
  "foldl (\<lambda>acc x. case x of None \<Rightarrow> acc | Some w \<Rightarrow> js_add acc w) (Fin a) (fins rs)
     = Fin (a + sum_list rs)"
  by (induction rs arbitrary: a) (simp_all add: fins_def add.assoc)

lemma sumArray_fins: "sumArray (fins rs) = Fin (sum_list rs)"
  by (simp add: sumArray_def foldl_sum_fins)

lemma walk_table_append:
  "walk_table m st (xs @ ys) = walk_table m (walk_table m st xs) ys"
  by (induction xs arbitrary: st) simp_all

text \<open>Whatever branch is taken, the cell of the slot is mapped to its column afterwards.\<close>

lemma walk_slot_map:
  "columnIndexMap (walk_slot m st slot) = (columnIndexMap st)(fst slot \<mapsto> snd slot)"
  by (auto simp: walk_slot_def handleColumnInsertion_def handleColumnDeletion_def Let_def
      split: option.splits)

lemma distinct_fst_fresh:
  "distinct (map fst (slot # slots)) \<Longrightarrow> s \<in> set slots \<Longrightarrow> fst s \<noteq> fst slot"
  by (auto simp: image_iff)

section \<open>A table without the attribute\<close>

lemma fix_table_Inl: "(fix_table N S cmap ch t = Inl e) = (columnWidthsAttribute t = None)"
  by (cases e) (simp add: fix_table_def Let_def split: option.splits)

lemma fix_tables_Inl:
  "(fix_tables N S cmap ch ts = Inl TypeError) = (\<exists>t \<in> set ts. columnWidthsAttribute t = None)"
proof (induction ts arbitrary: cmap ch)
  case Nil
  then show ?case by simp
next
  case (Cons t ts)
  show ?case
  proof (cases "fix_table N S cmap ch t")
    case (Inl e)
    then show ?thesis using fix_table_Inl[of N S cmap ch t e] by (cases e) simp
  next
    case (Inr r)
    then have "columnWidthsAttribute t \<noteq> None"
      using fix_table_Inl[of N S cmap ch t TypeError] by auto
    then show ?thesis using Inr Cons.IH[of "mapAfter r" "changedAfter r"]
      by (auto split: sum.splits)
  qed
qed

text \<open>
  Claim C10. The pass over the changed tables is defined only when every table it is
  given carries the \<open>columnWidths\<close> attribute: it ends in a TypeError exactly when some
  changed table has no such attribute (the absent attribute is read and split, and no
  guard precedes the call), and it returns exactly when every changed table has one.
\<close>

theorem postFixer_total_iff_attribute_present:
  "(postFixer N S cmap ts = Inl TypeError) = (\<exists>t \<in> set ts. columnWidthsAttribute t = None)
   \<and> ((\<exists>rs. postFixer N S cmap ts = Inr rs) = (\<forall>t \<in> set ts. columnWidthsAttribute t \<noteq> None))"
proof -
  have a: "(postFixer N S cmap ts = Inl TypeError) = (\<exists>t \<in> set ts. columnWidthsAttribute t = None)"
    by (simp add: postFixer_def fix_tables_Inl)
  have "(\<exists>rs. postFixer N S cmap ts = Inr rs) = (postFixer N S cmap ts \<noteq> Inl TypeError)"
    by (cases "postFixer N S cmap ts") (auto intro: error.exhaust)
  with a show ?thesis by auto
qed

theorem postFixer_total_iff_attribute_present_witness:
  "postFixer normalizeColumnWidths numberToString Map.empty
     [\<lparr>columnWidthsAttribute = Some ''50%,50%'', tableSlots = [(0, 0), (1, 1)],
       numberOfColumns = 2, columnMinWidthAsPercentage = Fin 10\<rparr>,
      \<lparr>columnWidthsAttribute = None, tableSlots = [(2, 0)],
       numberOfColumns = 1, columnMinWidthAsPercentage = Fin 10\<rparr>] = Inl TypeError
   \<and> (\<exists>rs. postFixer normalizeColumnWidths numberToString Map.empty
     [\<lparr>columnWidthsAttribute = Some ''50%,50%'', tableSlots = [(0, 0), (1, 1)],
       numberOfColumns = 2, columnMinWidthAsPercentage = Fin 10\<rparr>] = Inr rs)"
  using postFixer_total_iff_attribute_present
          [of normalizeColumnWidths numberToString Map.empty
              "[\<lparr>columnWidthsAttribute = Some ''50%,50%'', tableSlots = [(0, 0), (1, 1)],
                 numberOfColumns = 2, columnMinWidthAsPercentage = Fin 10\<rparr>,
                \<lparr>columnWidthsAttribute = None, tableSlots = [(2, 0)],
                 numberOfColumns = 1, columnMinWidthAsPercentage = Fin 10\<rparr>]"]
        postFixer_total_iff_attribute_present
          [of normalizeColumnWidths numberToString Map.empty
              "[\<lparr>columnWidthsAttribute = Some ''50%,50%'', tableSlots = [(0, 0), (1, 1)],
                 numberOfColumns = 2, columnMinWidthAsPercentage = Fin 10\<rparr>]"]
  by simp


lemma walk_table_map_other:
  "c \<notin> fst ` set slots \<Longrightarrow> columnIndexMap (walk_table m st slots) c = columnIndexMap st c"
  by (induction slots arbitrary: st) (auto simp: walk_slot_map)

lemma walk_slot_settled:
  assumes "columnIndexMap st (fst slot) = None \<or> columnIndexMap st (fst slot) = Some (snd slot)"
  shows "columnWidths (walk_slot m st slot) = columnWidths st"
    and "isColumnInsertionHandled (walk_slot m st slot) = isColumnInsertionHandled st"
    and "isColumnDeletionHandled (walk_slot m st slot) = isColumnDeletionHandled st"
  using assms by (auto simp: walk_slot_def Let_def split: option.splits)

lemma settled_fresh:
  assumes "distinct (map fst (slot # slots))"
  shows "settled (columnIndexMap (walk_slot m st slot)) slots = settled (columnIndexMap st) slots"
    and "none_moved_left (columnIndexMap (walk_slot m st slot)) slots = none_moved_left (columnIndexMap st) slots"
    and "none_moved_right (columnIndexMap (walk_slot m st slot)) slots = none_moved_right (columnIndexMap st) slots"
  using distinct_fst_fresh[OF assms]
  by (simp_all add: settled_def none_moved_left_def none_moved_right_def walk_slot_map list_all_iff)

lemma walk_table_settled:
  assumes "settled (columnIndexMap st) slots" and "distinct (map fst slots)"
  shows "columnWidths (walk_table m st slots) = columnWidths st
       \<and> isColumnInsertionHandled (walk_table m st slots) = isColumnInsertionHandled st
       \<and> isColumnDeletionHandled (walk_table m st slots) = isColumnDeletionHandled st"
  using assms
proof (induction slots arbitrary: st)
  case Nil
  then show ?case by simp
next
  case (Cons slot slots)
  have head: "columnIndexMap st (fst slot) = None \<or> columnIndexMap st (fst slot) = Some (snd slot)"
    using Cons.prems(1) by (simp add: settled_def)
  have "settled (columnIndexMap (walk_slot m st slot)) slots"
    using Cons.prems by (simp add: settled_fresh(1)) (simp add: settled_def)
  moreover have "distinct (map fst slots)" using Cons.prems(2) by simp
  ultimately show ?case
    using Cons.IH[of "walk_slot m st slot"] walk_slot_settled[OF head, of m] by simp
qed

text \<open>Once an insertion has been handled, slots that have not moved left change no width.\<close>

lemma walk_slot_inserted:
  assumes "isColumnInsertionHandled st"
    and "case columnIndexMap st (fst slot) of None \<Rightarrow> True | Some p \<Rightarrow> p \<le> snd slot"
  shows "columnWidths (walk_slot m st slot) = columnWidths st"
    and "isColumnInsertionHandled (walk_slot m st slot)"
    and "isColumnDeletionHandled (walk_slot m st slot) = isColumnDeletionHandled st"
  using assms
  by (auto simp: walk_slot_def handleColumnInsertion_def Let_def split: option.splits)

lemma walk_table_inserted:
  assumes "isColumnInsertionHandled st"
    and "none_moved_left (columnIndexMap st) slots" and "distinct (map fst slots)"
  shows "columnWidths (walk_table m st slots) = columnWidths st
       \<and> isColumnInsertionHandled (walk_table m st slots)
       \<and> isColumnDeletionHandled (walk_table m st slots) = isColumnDeletionHandled st"
  using assms
proof (induction slots arbitrary: st)
  case Nil
  then show ?case by simp
next
  case (Cons slot slots)
  have head: "case columnIndexMap st (fst slot) of None \<Rightarrow> True | Some p \<Rightarrow> p \<le> snd slot"
    using Cons.prems(2) by (simp add: none_moved_left_def)
  have "none_moved_left (columnIndexMap (walk_slot m st slot)) slots"
    using Cons.prems by (simp add: settled_fresh(2)) (simp add: none_moved_left_def)
  moreover have "distinct (map fst slots)" using Cons.prems(3) by simp
  ultimately show ?case
    using Cons.IH[of "walk_slot m st slot"] walk_slot_inserted[OF Cons.prems(1) head, of m]
    by simp
qed

lemma walk_slot_deleted:
  assumes "isColumnDeletionHandled st"
    and "case columnIndexMap st (fst slot) of None \<Rightarrow> True | Some p \<Rightarrow> snd slot \<le> p"
  shows "columnWidths (walk_slot m st slot) = columnWidths st"
    and "isColumnDeletionHandled (walk_slot m st slot)"
    and "isColumnInsertionHandled (walk_slot m st slot) = isColumnInsertionHandled st"
  using assms
  by (auto simp: walk_slot_def handleColumnDeletion_def Let_def split: option.splits)

lemma walk_table_deleted:
  assumes "isColumnDeletionHandled st"
    and "none_moved_right (columnIndexMap st) slots" and "distinct (map fst slots)"
  shows "columnWidths (walk_table m st slots) = columnWidths st
       \<and> isColumnDeletionHandled (walk_table m st slots)
       \<and> isColumnInsertionHandled (walk_table m st slots) = isColumnInsertionHandled st"
  using assms
proof (induction slots arbitrary: st)
  case Nil
  then show ?case by simp
next
  case (Cons slot slots)
  have head: "case columnIndexMap st (fst slot) of None \<Rightarrow> True | Some p \<Rightarrow> snd slot \<le> p"
    using Cons.prems(2) by (simp add: none_moved_right_def)
  have "none_moved_right (columnIndexMap (walk_slot m st slot)) slots"
    using Cons.prems by (simp add: settled_fresh(3)) (simp add: none_moved_right_def)
  moreover have "distinct (map fst slots)" using Cons.prems(3) by simp
  ultimately show ?case
    using Cons.IH[of "walk_slot m st slot"] walk_slot_deleted[OF Cons.prems(1) head, of m]
    by simp
qed

text \<open>The end of the table.\<close>

lemma handleTableEnd_same: "length ws = n \<Longrightarrow> handleTableEnd m n ws = ws"
  by (simp add: handleTableEnd_def)

lemma handleTableEnd_insert:
  "length ws < n \<Longrightarrow> handleTableEnd m n ws = ws @ replicate (n - length ws) (Some m)"
  by (simp add: handleTableEnd_def splice_def createFilledArray_def)

lemma length_handleTableEnd: "length (handleTableEnd m n ws) = n"
  by (auto simp: handleTableEnd_def splice_def createFilledArray_def add_at_def Let_def)


lemma walk_slot_first_insertion:
  assumes "columnIndexMap st c = Some prev" and "prev < col" and "\<not> isColumnInsertionHandled st"
  shows "columnWidths (walk_slot m st (c, col))
           = take prev (columnWidths st) @ replicate (col - prev) (Some m) @ drop prev (columnWidths st)"
    and "isColumnInsertionHandled (walk_slot m st (c, col))"
    and "isColumnDeletionHandled (walk_slot m st (c, col)) = isColumnDeletionHandled st"
  using assms
  by (simp_all add: walk_slot_def handleColumnInsertion_def Let_def splice_def createFilledArray_def)

text \<open>
  Claim C2. A table whose normalised width sequence has length K, into which N columns
  were inserted. When the first moved cell that the walk meets was stored at column
  \<open>prev\<close> and is now at column \<open>prev + N\<close> (no cell having moved to the left, and the
  table having K + N columns), the pass returns the sequence with N entries equal to the
  minimum column width spliced in at \<open>prev\<close>: its length is K + N and the earlier values
  stand around the new ones in their order. When no tracked cell has moved and the table
  has K + N columns, the N entries are appended at the end.
\<close>

theorem insertion_splices_minimum_widths:
  assumes attr: "columnWidthsAttribute t = Some attr"
    and ws: "N (split_comma attr) = ws"
    and dis: "distinct (map fst (tableSlots t))"
  shows "(tableSlots t = pre @ (c, col) # post \<and> settled cmap pre \<and> cmap c = Some prev \<and> prev < col
            \<and> none_moved_left cmap post \<and> numberOfColumns t = length ws + (col - prev)
          \<longrightarrow> (\<exists>r. fix_table N S cmap ch t = Inr r
                 \<and> fixedWidths r = take prev (map Some ws) @ replicate (col - prev) (Some (columnMinWidthAsPercentage t)) @ drop prev (map Some ws)
                 \<and> length (fixedWidths r) = length ws + (col - prev)))
       \<and> (settled cmap (tableSlots t) \<and> numberOfColumns t = length ws + n
          \<longrightarrow> (\<exists>r. fix_table N S cmap ch t = Inr r
                 \<and> fixedWidths r = map Some ws @ replicate n (Some (columnMinWidthAsPercentage t))))"
proof (intro conjI impI)
  let ?m = "columnMinWidthAsPercentage t"
  let ?st0 = "\<lparr>columnWidths = map Some ws, columnIndexMap = cmap, isColumnInsertionHandled = False,
               isColumnDeletionHandled = False, changed = ch\<rparr>"
  assume h: "tableSlots t = pre @ (c, col) # post \<and> settled cmap pre \<and> cmap c = Some prev \<and> prev < col
            \<and> none_moved_left cmap post \<and> numberOfColumns t = length ws + (col - prev)"
  let ?st1 = "walk_table ?m ?st0 pre"
  let ?st2 = "walk_slot ?m ?st1 (c, col)"
  let ?st3 = "walk_table ?m ?st2 post"
  have dpre: "distinct (map fst pre)" and dpost: "distinct (map fst post)"
    and cpre: "c \<notin> fst ` set pre" and cpost: "c \<notin> fst ` set post"
    and disj: "fst ` set pre \<inter> fst ` set post = {}"
    using dis h by auto
  have s1: "columnWidths ?st1 = map Some ws" "\<not> isColumnInsertionHandled ?st1" "\<not> isColumnDeletionHandled ?st1"
    using walk_table_settled[of ?st0 pre ?m] h dpre by simp_all
  have m1: "columnIndexMap ?st1 c = Some prev"
    using walk_table_map_other[OF cpre, of ?m ?st0] h by simp
  have s2: "columnWidths ?st2 = take prev (map Some ws) @ replicate (col - prev) (Some ?m) @ drop prev (map Some ws)"
      "isColumnInsertionHandled ?st2" "\<not> isColumnDeletionHandled ?st2"
    using walk_slot_first_insertion[OF m1 _ s1(2), of col ?m] h s1 by simp_all
  have m2: "\<And>s. s \<in> set post \<Longrightarrow> columnIndexMap ?st2 (fst s) = cmap (fst s)"
  proof -
    fix s assume sp: "s \<in> set post"
    then have a: "fst s \<noteq> c" using cpost by auto
    have b: "fst s \<notin> fst ` set pre" using sp disj by auto
    show "columnIndexMap ?st2 (fst s) = cmap (fst s)"
      using a walk_table_map_other[OF b, of ?m ?st0] by (simp add: walk_slot_map)
  qed
  have nl: "none_moved_left (columnIndexMap ?st2) post"
    using h m2 by (simp add: none_moved_left_def list_all_iff)
  have s3: "columnWidths ?st3 = take prev (map Some ws) @ replicate (col - prev) (Some ?m) @ drop prev (map Some ws)"
    using walk_table_inserted[OF s2(2) nl dpost, of ?m] s2(1) by simp
  have walk: "walk_table ?m ?st0 (tableSlots t) = ?st3"
    using h by (simp add: walk_table_append)
  have len: "length (columnWidths ?st3) = numberOfColumns t"
    using h by (simp add: s3)
  show "\<exists>r. fix_table N S cmap ch t = Inr r
          \<and> fixedWidths r = take prev (map Some ws) @ replicate (col - prev) (Some ?m) @ drop prev (map Some ws)
          \<and> length (fixedWidths r) = length ws + (col - prev)"
    using attr ws walk len s3 handleTableEnd_same[OF len, of ?m]
    by (simp add: fix_table_def Let_def)
next
  let ?m = "columnMinWidthAsPercentage t"
  let ?st0 = "\<lparr>columnWidths = map Some ws, columnIndexMap = cmap, isColumnInsertionHandled = False,
               isColumnDeletionHandled = False, changed = ch\<rparr>"
  assume h: "settled cmap (tableSlots t) \<and> numberOfColumns t = length ws + n"
  have s1: "columnWidths (walk_table ?m ?st0 (tableSlots t)) = map Some ws"
    using walk_table_settled[of ?st0 "tableSlots t" ?m] h dis by simp
  show "\<exists>r. fix_table N S cmap ch t = Inr r \<and> fixedWidths r = map Some ws @ replicate n (Some ?m)"
  proof (cases "n = 0")
    case True
    then show ?thesis using attr ws s1 h handleTableEnd_same[of "map Some ws" "numberOfColumns t" ?m]
      by (simp add: fix_table_def Let_def)
  next
    case False
    then have "length ws < numberOfColumns t" using h by simp
    then show ?thesis using attr ws s1 h handleTableEnd_insert[of "map Some ws" "numberOfColumns t" ?m]
      by (simp add: fix_table_def Let_def)
  qed
qed

theorem insertion_splices_minimum_widths_witness:
  "(\<exists>r. fix_table normalizeColumnWidths numberToString [0 \<mapsto> 0, 1 \<mapsto> 1] False
           \<lparr>columnWidthsAttribute = Some ''50%,50%'', tableSlots = [(0, 0), (2, 1), (1, 2)],
            numberOfColumns = 3, columnMinWidthAsPercentage = Fin 10\<rparr> = Inr r
      \<and> fixedWidths r = [Some (Fin 50), Some (Fin 10), Some (Fin 50)]
      \<and> length (fixedWidths r) = 3)
   \<and> (\<exists>r. fix_table normalizeColumnWidths numberToString [0 \<mapsto> 0, 1 \<mapsto> 1] False
           \<lparr>columnWidthsAttribute = Some ''50%,50%'', tableSlots = [(0, 0), (1, 1), (2, 2)],
            numberOfColumns = 3, columnMinWidthAsPercentage = Fin 10\<rparr> = Inr r
      \<and> fixedWidths r = [Some (Fin 50), Some (Fin 50), Some (Fin 10)])"
proof -
  have n: "normalizeColumnWidths (split_comma ''50%,50%'') = [Fin 50, Fin 50]"
    by code_simp
  have a: "\<exists>r. fix_table normalizeColumnWidths numberToString [0 \<mapsto> 0, 1 \<mapsto> 1] False
           \<lparr>columnWidthsAttribute = Some ''50%,50%'', tableSlots = [(0, 0), (2, 1), (1, 2)],
            numberOfColumns = 3, columnMinWidthAsPercentage = Fin 10\<rparr> = Inr r
      \<and> fixedWidths r = [Some (Fin 50), Some (Fin 10), Some (Fin 50)]
      \<and> length (fixedWidths r) = 3"
    using insertion_splices_minimum_widths
      [where t = "\<lparr>columnWidthsAttribute = Some ''50%,50%'', tableSlots = [(0, 0), (2, 1), (1, 2)],
            numberOfColumns = 3, columnMinWidthAsPercentage = Fin 10\<rparr>"
         and attr = "''50%,50%''" and N = normalizeColumnWidths and S = numberToString
         and ws = "[Fin 50, Fin 50]" and cmap = "[0 \<mapsto> 0, 1 \<mapsto> 1]" and ch = False
         and pre = "[(0, 0), (2, 1)]" and c = 1 and col = 2 and post = "[]" and prev = 1 and n = 0,
       OF _ n]
    by (auto simp: settled_def none_moved_left_def)
  have b: "\<exists>r. fix_table normalizeColumnWidths numberToString [0 \<mapsto> 0, 1 \<mapsto> 1] False
           \<lparr>columnWidthsAttribute = Some ''50%,50%'', tableSlots = [(0, 0), (1, 1), (2, 2)],
            numberOfColumns = 3, columnMinWidthAsPercentage = Fin 10\<rparr> = Inr r
      \<and> fixedWidths r = [Some (Fin 50), Some (Fin 50), Some (Fin 10)]"
    using insertion_splices_minimum_widths
      [where t = "\<lparr>columnWidthsAttribute = Some ''50%,50%'', tableSlots = [(0, 0), (1, 1), (2, 2)],
            numberOfColumns = 3, columnMinWidthAsPercentage = Fin 10\<rparr>"
         and attr = "''50%,50%''" and N = normalizeColumnWidths and S = numberToString
         and ws = "[Fin 50, Fin 50]" and cmap = "[0 \<mapsto> 0, 1 \<mapsto> 1]" and ch = False
         and pre = "[]" and c = 0 and col = 0 and post = "[]" and prev = 0 and n = 1,
       OF _ n]
    by (auto simp: settled_def none_moved_left_def)
  from a b show ?thesis by simp
qed


lemma add_at_fins:
  "i < length xs \<Longrightarrow> add_at i (Fin w) (fins xs) = fins (xs[i := xs ! i + w])"
  by (simp add: add_at_def fins_def map_update)

lemma fins_Nil: "fins [] = []"
  by (simp add: fins_def)

lemma fins_take: "take n (fins rs) = fins (take n rs)"
  and fins_drop: "drop n (fins rs) = fins (drop n rs)"
  and fins_append: "fins xs @ fins ys = fins (xs @ ys)"
  and length_fins: "length (fins rs) = length rs"
  by (simp_all add: fins_def take_map drop_map)

lemma donate_left_list:
  assumes "0 < col" and "col \<le> length rs"
  shows "(take col rs @ ys)[col - 1 := (take col rs @ ys) ! (col - 1) + w]
           = take (col - 1) rs @ [rs ! (col - 1) + w] @ ys"
proof -
  have t: "take col rs = take (col - 1) rs @ [rs ! (col - 1)]"
    using assms take_Suc_conv_app_nth[of "col - 1" rs] by simp
  have l: "length (take (col - 1) rs) = col - 1" using assms by simp
  show ?thesis
    unfolding t using l by (simp add: list_update_append nth_append)
qed

lemma donate_right_list:
  assumes "prev < length rs"
  shows "(drop prev rs)[0 := drop prev rs ! 0 + w] = (rs ! prev + w) # drop (Suc prev) rs"
  using assms Cons_nth_drop_Suc[of prev rs, symmetric] by simp

lemma sum_list_three:
  assumes "col \<le> prev" and "prev \<le> length (rs :: rat list)"
  shows "sum_list (take col rs) + sum_list (take (prev - col) (drop col rs)) + sum_list (drop prev rs)
           = sum_list rs"
proof -
  have "rs = take col rs @ take (prev - col) (drop col rs) @ drop prev rs"
    using assms by (metis add_diff_inverse_nat append_take_drop_id drop_drop le_antisym linorder_not_le add.commute)
  then have "sum_list rs = sum_list (take col rs @ take (prev - col) (drop col rs) @ drop prev rs)"
    by simp
  then show ?thesis by simp
qed


lemma sum_list_donated:
  assumes "col < prev" and "prev < length rs"
  shows "sum_list (donated col prev rs) = sum_list rs" and "length (donated col prev rs) = length rs - (prev - col)"
proof -
  show "sum_list (donated col prev rs) = sum_list rs"
  proof (cases "0 < col")
    case True
    have t: "take col rs = take (col - 1) rs @ [rs ! (col - 1)]"
      using True assms take_Suc_conv_app_nth[of "col - 1" rs] by simp
    have "sum_list (take col rs) = sum_list (take (col - 1) rs) + rs ! (col - 1)"
      by (subst t) simp
    then show ?thesis
      using True sum_list_three[of col prev rs] assms by (simp add: donated_def)
  next
    case False
    have "drop prev rs = rs ! prev # drop (Suc prev) rs"
      using assms Cons_nth_drop_Suc[of prev rs] by simp
    then have "sum_list (drop prev rs) = rs ! prev + sum_list (drop (Suc prev) rs)" by simp
    then show ?thesis
      using False sum_list_three[of 0 prev rs] assms by (simp add: donated_def)
  qed
  show "length (donated col prev rs) = length rs - (prev - col)"
    using assms by (auto simp: donated_def)
qed

lemma walk_slot_first_deletion:
  assumes m: "columnIndexMap st c = Some prev" and lt: "col < prev"
    and nh: "\<not> isColumnDeletionHandled st"
    and ws: "columnWidths st = fins rs" and rng: "prev < length rs"
  shows "columnWidths (walk_slot m st (c, col)) = fins (donated col prev rs)"
    and "isColumnDeletionHandled (walk_slot m st (c, col))"
    and "isColumnInsertionHandled (walk_slot m st (c, col)) = isColumnInsertionHandled st"
proof -
  let ?W = "sum_list (take (prev - col) (drop col rs))"
  let ?R = "take col rs @ drop prev rs"
  let ?i = "if 0 < col then col - 1 else col"
  have removed: "fst (splice col (prev - col) [] (fins rs)) = fins (take (prev - col) (drop col rs))"
    by (simp add: splice_def fins_take fins_drop)
  have remaining: "snd (splice col (prev - col) [] (fins rs)) = fins ?R"
    using lt by (simp add: splice_def fins_take fins_drop fins_append)
  have i: "?i < length ?R" using lt rng by auto
  have upd: "?R[?i := ?R ! ?i + ?W] = donated col prev rs"
  proof (cases "0 < col")
    case True
    then show ?thesis
      using donate_left_list[of col rs "drop prev rs" ?W] lt rng by (simp add: donated_def)
  next
    case False
    then show ?thesis
      using donate_right_list[OF rng, of "sum_list (take prev rs)"] by (simp add: donated_def)
  qed
  have "columnWidths (walk_slot m st (c, col)) = add_at ?i (Fin ?W) (fins ?R)"
    using m lt nh ws
    by (simp add: walk_slot_def handleColumnDeletion_def Let_def removed remaining sumArray_fins)
  then show "columnWidths (walk_slot m st (c, col)) = fins (donated col prev rs)"
    using add_at_fins[OF i, of ?W] upd by simp
  show "isColumnDeletionHandled (walk_slot m st (c, col))"
    and "isColumnInsertionHandled (walk_slot m st (c, col)) = isColumnInsertionHandled st"
    using m lt nh by (simp_all add: walk_slot_def handleColumnDeletion_def Let_def)
qed

lemma handleTableEnd_delete:
  assumes "0 < n" and "n < length rs"
  shows "handleTableEnd m n (fins rs) = fins (take (n - 1) rs @ [rs ! (n - 1) + sum_list (drop n rs)])"
proof -
  have removed: "fst (splice n (length rs - n) [] (fins rs)) = fins (drop n rs)"
    by (simp add: splice_def fins_take fins_drop length_fins)
  have remaining: "snd (splice n (length rs - n) [] (fins rs)) = fins (take n rs)"
    using assms by (simp add: splice_def fins_take fins_drop length_fins fins_Nil)
  have i: "n - 1 < length (take n rs)" using assms by simp
  have upd: "(take n rs)[n - 1 := take n rs ! (n - 1) + sum_list (drop n rs)]
               = take (n - 1) rs @ [rs ! (n - 1) + sum_list (drop n rs)]"
    using donate_left_list[of n rs "[]" "sum_list (drop n rs)"] assms by simp
  show ?thesis
    using assms add_at_fins[OF i, of "sum_list (drop n rs)"] upd
    by (simp add: handleTableEnd_def Let_def length_fins removed remaining sumArray_fins)
qed

lemma sum_list_tail_donated:
  assumes "0 < n" and "n < length (rs :: rat list)"
  shows "sum_list (take (n - 1) rs @ [rs ! (n - 1) + sum_list (drop n rs)]) = sum_list rs"
proof -
  have t: "take n rs = take (n - 1) rs @ [rs ! (n - 1)]"
    using assms take_Suc_conv_app_nth[of "n - 1" rs] by simp
  have "sum_list rs = sum_list (take n rs) + sum_list (drop n rs)"
    by (metis append_take_drop_id sum_list_append)
  also have "sum_list (take n rs) = sum_list (take (n - 1) rs) + rs ! (n - 1)"
    by (subst t) simp
  finally show ?thesis by simp
qed


lemma map_Some_Fin: "map Some (map Fin rs) = fins rs"
  by (simp add: fins_def)

lemma fix_table_Inr:
  assumes "columnWidthsAttribute t = Some attr" and "map Some (N (split_comma attr)) = ws"
  shows "\<exists>r. fix_table N S cmap ch t = Inr r
           \<and> fixedWidths r =
               handleTableEnd (columnMinWidthAsPercentage t) (numberOfColumns t)
                 (columnWidths (walk_table (columnMinWidthAsPercentage t)
                    \<lparr>columnWidths = ws, columnIndexMap = cmap, isColumnInsertionHandled = False,
                     isColumnDeletionHandled = False, changed = ch\<rparr> (tableSlots t)))"
  using assms by (simp add: fix_table_def Let_def)

text \<open>
  Claim C3. A table whose normalised widths are the numbers \<open>rs\<close>, from which the
  columns \<open>col\<close> up to \<open>prev - 1\<close> were deleted: the first moved cell that the walk
  meets was stored at column \<open>prev\<close>, which has a width entry, and is now at column
  \<open>col\<close>; no cell has moved to the right. The pass returns the sequence without the
  \<open>prev - col\<close> deleted entries, their sum added to the left neighbour of the deletion
  point, or to the right neighbour when the deletion was at index 0, and the sum of
  the sequence is the same. When no tracked cell has moved and the table has fewer
  columns than the sequence has entries, the entries beyond the last column are removed
  and their sum is added to the last column.
\<close>

theorem deletion_donates_to_neighbour:
  assumes attr: "columnWidthsAttribute t = Some attr"
    and ws: "N (split_comma attr) = map Fin rs"
    and dis: "distinct (map fst (tableSlots t))"
  shows "(tableSlots t = pre @ (c, col) # post \<and> settled cmap pre \<and> cmap c = Some prev \<and> col < prev
            \<and> prev < length rs \<and> none_moved_right cmap post
            \<and> numberOfColumns t + (prev - col) = length rs
          \<longrightarrow> (\<exists>r. fix_table N S cmap ch t = Inr r
                 \<and> fixedWidths r = fins (donated col prev rs)
                 \<and> length (fixedWidths r) + (prev - col) = length rs
                 \<and> sum_list (donated col prev rs) = sum_list rs))
       \<and> (settled cmap (tableSlots t) \<and> 0 < numberOfColumns t \<and> numberOfColumns t < length rs
          \<longrightarrow> (\<exists>r. fix_table N S cmap ch t = Inr r
                 \<and> fixedWidths r = fins (take (numberOfColumns t - 1) rs @
                      [rs ! (numberOfColumns t - 1) + sum_list (drop (numberOfColumns t) rs)])
                 \<and> sum_list (take (numberOfColumns t - 1) rs @
                      [rs ! (numberOfColumns t - 1) + sum_list (drop (numberOfColumns t) rs)])
                    = sum_list rs))"
proof (intro conjI impI)
  let ?m = "columnMinWidthAsPercentage t"
  let ?st0 = "\<lparr>columnWidths = fins rs, columnIndexMap = cmap, isColumnInsertionHandled = False,
               isColumnDeletionHandled = False, changed = ch\<rparr>"
  assume h: "tableSlots t = pre @ (c, col) # post \<and> settled cmap pre \<and> cmap c = Some prev \<and> col < prev
            \<and> prev < length rs \<and> none_moved_right cmap post
            \<and> numberOfColumns t + (prev - col) = length rs"
  let ?st1 = "walk_table ?m ?st0 pre"
  let ?st2 = "walk_slot ?m ?st1 (c, col)"
  let ?st3 = "walk_table ?m ?st2 post"
  have init: "map Some (N (split_comma attr)) = fins rs"
    using ws by (simp add: fins_def)
  have dpre: "distinct (map fst pre)" and dpost: "distinct (map fst post)"
    and cpre: "c \<notin> fst ` set pre" and cpost: "c \<notin> fst ` set post"
    and disj: "fst ` set pre \<inter> fst ` set post = {}"
    using dis h by auto
  have s1: "columnWidths ?st1 = fins rs" "\<not> isColumnInsertionHandled ?st1" "\<not> isColumnDeletionHandled ?st1"
    using walk_table_settled[of ?st0 pre ?m] h dpre by simp_all
  have m1: "columnIndexMap ?st1 c = Some prev"
    using walk_table_map_other[OF cpre, of ?m ?st0] h by simp
  have lt: "col < prev" and rng: "prev < length rs" using h by simp_all
  have s2: "columnWidths ?st2 = fins (donated col prev rs)" "isColumnDeletionHandled ?st2"
    using walk_slot_first_deletion[OF m1 lt s1(3) s1(1) rng, of ?m] by simp_all
  have m2: "\<And>s. s \<in> set post \<Longrightarrow> columnIndexMap ?st2 (fst s) = cmap (fst s)"
  proof -
    fix s assume sp: "s \<in> set post"
    then have a: "fst s \<noteq> c" using cpost by auto
    have b: "fst s \<notin> fst ` set pre" using sp disj by auto
    show "columnIndexMap ?st2 (fst s) = cmap (fst s)"
      using a walk_table_map_other[OF b, of ?m ?st0] by (simp add: walk_slot_map)
  qed
  have nr: "none_moved_right (columnIndexMap ?st2) post"
    using h m2 by (simp add: none_moved_right_def list_all_iff)
  have s3: "columnWidths ?st3 = fins (donated col prev rs)"
    using walk_table_deleted[OF s2(2) nr dpost, of ?m] s2(1) by simp
  have walk: "walk_table ?m ?st0 (tableSlots t) = ?st3"
    using h by (simp add: walk_table_append)
  have ld: "length (donated col prev rs) = numberOfColumns t"
    using h sum_list_donated(2)[OF lt rng] by linarith
  have len: "length (columnWidths ?st3) = numberOfColumns t"
    using ld by (simp add: s3 length_fins)
  show "\<exists>r. fix_table N S cmap ch t = Inr r
          \<and> fixedWidths r = fins (donated col prev rs)
          \<and> length (fixedWidths r) + (prev - col) = length rs
          \<and> sum_list (donated col prev rs) = sum_list rs"
    using fix_table_Inr[where N = N and S = S and cmap = cmap and ch = ch, OF attr init] walk s3 handleTableEnd_same[OF len, of ?m]
      sum_list_donated(1)[OF lt rng] ld h
    by (auto simp: length_fins)
next
  let ?m = "columnMinWidthAsPercentage t"
  let ?n = "numberOfColumns t"
  let ?st0 = "\<lparr>columnWidths = fins rs, columnIndexMap = cmap, isColumnInsertionHandled = False,
               isColumnDeletionHandled = False, changed = ch\<rparr>"
  assume h: "settled cmap (tableSlots t) \<and> 0 < numberOfColumns t \<and> numberOfColumns t < length rs"
  have init: "map Some (N (split_comma attr)) = fins rs"
    using ws by (simp add: fins_def)
  have s1: "columnWidths (walk_table ?m ?st0 (tableSlots t)) = fins rs"
    using walk_table_settled[of ?st0 "tableSlots t" ?m] h dis by simp
  have n: "0 < ?n" "?n < length rs" using h by simp_all
  show "\<exists>r. fix_table N S cmap ch t = Inr r
          \<and> fixedWidths r = fins (take (?n - 1) rs @ [rs ! (?n - 1) + sum_list (drop ?n rs)])
          \<and> sum_list (take (?n - 1) rs @ [rs ! (?n - 1) + sum_list (drop ?n rs)]) = sum_list rs"
    using fix_table_Inr[where N = N and S = S and cmap = cmap and ch = ch, OF attr init] s1 handleTableEnd_delete[OF n, of ?m]
      sum_list_tail_donated[OF n]
    by auto
qed

theorem deletion_donates_to_neighbour_witness:
  "(\<exists>r. fix_table normalizeColumnWidths numberToString [0 \<mapsto> 0, 1 \<mapsto> 1, 2 \<mapsto> 2] False
           \<lparr>columnWidthsAttribute = Some ''20%,30%,50%'', tableSlots = [(0, 0), (2, 1)],
            numberOfColumns = 2, columnMinWidthAsPercentage = Fin 10\<rparr> = Inr r
      \<and> fixedWidths r = [Some (Fin 50), Some (Fin 50)])
   \<and> (\<exists>r. fix_table normalizeColumnWidths numberToString [0 \<mapsto> 0, 1 \<mapsto> 1, 2 \<mapsto> 2] False
           \<lparr>columnWidthsAttribute = Some ''20%,30%,50%'', tableSlots = [(1, 0), (2, 1)],
            numberOfColumns = 2, columnMinWidthAsPercentage = Fin 10\<rparr> = Inr r
      \<and> fixedWidths r = [Some (Fin 50), Some (Fin 50)])
   \<and> (\<exists>r. fix_table normalizeColumnWidths numberToString [0 \<mapsto> 0, 1 \<mapsto> 1, 2 \<mapsto> 2] False
           \<lparr>columnWidthsAttribute = Some ''20%,30%,50%'', tableSlots = [(0, 0), (1, 1)],
            numberOfColumns = 2, columnMinWidthAsPercentage = Fin 10\<rparr> = Inr r
      \<and> fixedWidths r = [Some (Fin 20), Some (Fin 80)])"
proof -
  have n: "normalizeColumnWidths (split_comma ''20%,30%,50%'') = map Fin [20, 30, 50]"
    by code_simp
  have a: "\<exists>r. fix_table normalizeColumnWidths numberToString [0 \<mapsto> 0, 1 \<mapsto> 1, 2 \<mapsto> 2] False
           \<lparr>columnWidthsAttribute = Some ''20%,30%,50%'', tableSlots = [(0, 0), (2, 1)],
            numberOfColumns = 2, columnMinWidthAsPercentage = Fin 10\<rparr> = Inr r
      \<and> fixedWidths r = [Some (Fin 50), Some (Fin 50)]"
    using deletion_donates_to_neighbour
      [where t = "\<lparr>columnWidthsAttribute = Some ''20%,30%,50%'', tableSlots = [(0, 0), (2, 1)],
            numberOfColumns = 2, columnMinWidthAsPercentage = Fin 10\<rparr>"
         and attr = "''20%,30%,50%''" and N = normalizeColumnWidths and S = numberToString
         and rs = "[20, 30, 50]" and cmap = "[0 \<mapsto> 0, 1 \<mapsto> 1, 2 \<mapsto> 2]" and ch = False
         and pre = "[(0, 0)]" and c = 2 and col = 1 and post = "[]" and prev = 2,
       OF _ n]
    by (auto simp: settled_def none_moved_right_def donated_def fins_def)
  have b: "\<exists>r. fix_table normalizeColumnWidths numberToString [0 \<mapsto> 0, 1 \<mapsto> 1, 2 \<mapsto> 2] False
           \<lparr>columnWidthsAttribute = Some ''20%,30%,50%'', tableSlots = [(1, 0), (2, 1)],
            numberOfColumns = 2, columnMinWidthAsPercentage = Fin 10\<rparr> = Inr r
      \<and> fixedWidths r = [Some (Fin 50), Some (Fin 50)]"
    using deletion_donates_to_neighbour
      [where t = "\<lparr>columnWidthsAttribute = Some ''20%,30%,50%'', tableSlots = [(1, 0), (2, 1)],
            numberOfColumns = 2, columnMinWidthAsPercentage = Fin 10\<rparr>"
         and attr = "''20%,30%,50%''" and N = normalizeColumnWidths and S = numberToString
         and rs = "[20, 30, 50]" and cmap = "[0 \<mapsto> 0, 1 \<mapsto> 1, 2 \<mapsto> 2]" and ch = False
         and pre = "[]" and c = 1 and col = 0 and post = "[(2, 1)]" and prev = 1,
       OF _ n]
    by (auto simp: settled_def none_moved_right_def donated_def fins_def)
  have c: "\<exists>r. fix_table normalizeColumnWidths numberToString [0 \<mapsto> 0, 1 \<mapsto> 1, 2 \<mapsto> 2] False
           \<lparr>columnWidthsAttribute = Some ''20%,30%,50%'', tableSlots = [(0, 0), (1, 1)],
            numberOfColumns = 2, columnMinWidthAsPercentage = Fin 10\<rparr> = Inr r
      \<and> fixedWidths r = [Some (Fin 20), Some (Fin 80)]"
    using deletion_donates_to_neighbour
      [where t = "\<lparr>columnWidthsAttribute = Some ''20%,30%,50%'', tableSlots = [(0, 0), (1, 1)],
            numberOfColumns = 2, columnMinWidthAsPercentage = Fin 10\<rparr>"
         and attr = "''20%,30%,50%''" and N = normalizeColumnWidths and S = numberToString
         and rs = "[20, 30, 50]" and cmap = "[0 \<mapsto> 0, 1 \<mapsto> 1, 2 \<mapsto> 2]" and ch = False
         and pre = "[]" and c = 0 and col = 0 and post = "[]" and prev = 0,
       OF _ n]
    by (auto simp: settled_def none_moved_right_def donated_def fins_def)
  from a b c show ?thesis by simp
qed


text \<open>
  While no insertion has been handled, the array holds finite numbers of the same sum as
  at the start, as long as the stored columns lie within the array.
\<close>

lemma walk_slot_keeps_sum:
  assumes rng: "case columnIndexMap st (fst slot) of None \<Rightarrow> True | Some p \<Rightarrow> p < k"
    and inv: "\<not> isColumnInsertionHandled st \<longrightarrow>
               (\<exists>rs'. columnWidths st = fins rs' \<and> sum_list rs' = tot
                      \<and> (\<not> isColumnDeletionHandled st \<longrightarrow> length rs' = k))"
  shows "\<not> isColumnInsertionHandled (walk_slot m st slot) \<longrightarrow>
           (\<exists>rs'. columnWidths (walk_slot m st slot) = fins rs' \<and> sum_list rs' = tot
                  \<and> (\<not> isColumnDeletionHandled (walk_slot m st slot) \<longrightarrow> length rs' = k))"
proof (cases "columnIndexMap st (fst slot)")
  case None
  then show ?thesis using inv walk_slot_settled[of st slot m] by simp
next
  case (Some prev)
  consider (same) "prev = snd slot" | (ins) "prev < snd slot" | (del) "snd slot < prev"
    by linarith
  then show ?thesis
  proof cases
    case same
    then show ?thesis using inv Some walk_slot_settled[of st slot m] by simp
  next
    case ins
    then have "isColumnInsertionHandled (walk_slot m st slot)"
      using Some by (simp add: walk_slot_def handleColumnInsertion_def Let_def)
    then show ?thesis by simp
  next
    case del
    show ?thesis
    proof (cases "isColumnDeletionHandled st")
      case True
      have "case columnIndexMap st (fst slot) of None \<Rightarrow> True | Some p \<Rightarrow> snd slot \<le> p"
        using Some del by simp
      from walk_slot_deleted[OF True this, of m] show ?thesis using inv True by simp
    next
      case False
      show ?thesis
      proof
        assume ni: "\<not> isColumnInsertionHandled (walk_slot m st slot)"
        have m0: "columnIndexMap st (fst slot) = Some prev" by (rule Some)
        have ni0: "\<not> isColumnInsertionHandled st"
          using ni walk_slot_first_deletion(3)[of st "fst slot" prev "snd slot" _ m]
          using Some del False
          by (simp add: walk_slot_def handleColumnDeletion_def Let_def)
        then obtain rs' where rs': "columnWidths st = fins rs'" "sum_list rs' = tot" "length rs' = k"
          using inv False by auto
        have p: "prev < length rs'" using rng Some rs' by simp
        have "columnWidths (walk_slot m st (fst slot, snd slot)) = fins (donated (snd slot) prev rs')"
          and "isColumnDeletionHandled (walk_slot m st (fst slot, snd slot))"
          using walk_slot_first_deletion[OF m0 del False rs'(1) p, of m] by simp_all
        then show "\<exists>rs'. columnWidths (walk_slot m st slot) = fins rs' \<and> sum_list rs' = tot
                  \<and> (\<not> isColumnDeletionHandled (walk_slot m st slot) \<longrightarrow> length rs' = k)"
          using sum_list_donated(1)[OF del p] rs'(2) by auto
      qed
    qed
  qed
qed

lemma tracked_below_fresh:
  assumes "distinct (map fst (slot # slots))"
  shows "tracked_below k (columnIndexMap (walk_slot m st slot)) slots = tracked_below k (columnIndexMap st) slots"
  using distinct_fst_fresh[OF assms]
  by (simp add: tracked_below_def walk_slot_map list_all_iff)

lemma walk_table_keeps_sum:
  assumes "tracked_below k (columnIndexMap st) slots" and "distinct (map fst slots)"
    and "\<not> isColumnInsertionHandled st \<longrightarrow>
               (\<exists>rs'. columnWidths st = fins rs' \<and> sum_list rs' = tot
                      \<and> (\<not> isColumnDeletionHandled st \<longrightarrow> length rs' = k))"
  shows "\<not> isColumnInsertionHandled (walk_table m st slots) \<longrightarrow>
           (\<exists>rs'. columnWidths (walk_table m st slots) = fins rs' \<and> sum_list rs' = tot
                  \<and> (\<not> isColumnDeletionHandled (walk_table m st slots) \<longrightarrow> length rs' = k))"
  using assms
proof (induction slots arbitrary: st)
  case Nil
  then show ?case by simp
next
  case (Cons slot slots)
  have head: "case columnIndexMap st (fst slot) of None \<Rightarrow> True | Some p \<Rightarrow> p < k"
    using Cons.prems(1) by (simp add: tracked_below_def)
  have tb: "tracked_below k (columnIndexMap (walk_slot m st slot)) slots"
    using Cons.prems(1,2) by (simp add: tracked_below_fresh) (simp add: tracked_below_def)
  have d: "distinct (map fst slots)" using Cons.prems(2) by simp
  from Cons.IH[OF tb d walk_slot_keeps_sum[OF head Cons.prems(3), of m]]
  show ?case by simp
qed

lemma handleTableEnd_keeps_sum:
  assumes "0 < n" and "n \<le> length rs"
  shows "\<exists>rs'. handleTableEnd m n (fins rs) = fins rs' \<and> sum_list rs' = sum_list rs"
proof (cases "n = length rs")
  case True
  then have "handleTableEnd m n (fins rs) = fins rs"
    using handleTableEnd_same[of "fins rs" n m] by (simp add: length_fins)
  then show ?thesis by blast
next
  case False
  then have n: "n < length rs" using assms by simp
  show ?thesis
    using handleTableEnd_delete[OF assms(1) n, of m] sum_list_tail_donated[OF assms(1) n] by blast
qed

lemma fix_table_Inr_full:
  assumes "columnWidthsAttribute t = Some attr" and "map Some (N (split_comma attr)) = ws"
  shows "\<exists>r. fix_table N S cmap ch t = Inr r
           \<and> fixedWidths r =
               handleTableEnd (columnMinWidthAsPercentage t) (numberOfColumns t)
                 (columnWidths (walk_table (columnMinWidthAsPercentage t)
                    \<lparr>columnWidths = ws, columnIndexMap = cmap, isColumnInsertionHandled = False,
                     isColumnDeletionHandled = False, changed = ch\<rparr> (tableSlots t)))
           \<and> insertionHandled r = isColumnInsertionHandled (walk_table (columnMinWidthAsPercentage t)
                    \<lparr>columnWidths = ws, columnIndexMap = cmap, isColumnInsertionHandled = False,
                     isColumnDeletionHandled = False, changed = ch\<rparr> (tableSlots t))
           \<and> insertionAtEnd r = (length (columnWidths (walk_table (columnMinWidthAsPercentage t)
                    \<lparr>columnWidths = ws, columnIndexMap = cmap, isColumnInsertionHandled = False,
                     isColumnDeletionHandled = False, changed = ch\<rparr> (tableSlots t))) < numberOfColumns t)
           \<and> mapAfter r = columnIndexMap (walk_table (columnMinWidthAsPercentage t)
                    \<lparr>columnWidths = ws, columnIndexMap = cmap, isColumnInsertionHandled = False,
                     isColumnDeletionHandled = False, changed = ch\<rparr> (tableSlots t))
           \<and> changedAfter r = (changed (walk_table (columnMinWidthAsPercentage t)
                    \<lparr>columnWidths = ws, columnIndexMap = cmap, isColumnInsertionHandled = False,
                     isColumnDeletionHandled = False, changed = ch\<rparr> (tableSlots t))
                  \<or> attr \<noteq> serializeWidths S (fixedWidths r))
           \<and> attributeWritten r = (attr \<noteq> serializeWidths S (fixedWidths r))
           \<and> serialized r = serializeWidths S (fixedWidths r)
           \<and> attributeAfter r = serializeWidths S (fixedWidths r)"
  using assms by (simp add: fix_table_def Let_def)

lemma split_comma_token:
  "CHR '','' \<notin> set t \<Longrightarrow> split_comma t = [t]"
  by (induction t) auto

lemma split_comma_append:
  "CHR '','' \<notin> set t \<Longrightarrow> split_comma (t @ CHR '','' # rest) = t # split_comma rest"
  by (induction t) auto

lemma split_join_comma:
  "toks \<noteq> [] \<Longrightarrow> \<forall>t \<in> set toks. CHR '','' \<notin> set t \<Longrightarrow> split_comma (join_comma toks) = toks"
proof (induction toks rule: join_comma.induct)
  case 1
  then show ?case by simp
next
  case (2 t)
  then show ?case by (simp add: split_comma_token)
next
  case (3 t u us)
  then show ?case by (simp add: split_comma_append)
qed

lemma split_serializeWidths:
  assumes "rs \<noteq> []" and "\<forall>x \<in> set rs. CHR '','' \<notin> set (S (Fin x))"
  shows "split_comma (serializeWidths S (fins rs)) = map (\<lambda>x. S (Fin x) @ ''%'') rs"
proof -
  have m: "map (percentToken S) (fins rs) = map (\<lambda>x. S (Fin x) @ ''%'') rs"
    by (simp add: fins_def percentToken_def comp_def)
  have "split_comma (join_comma (map (\<lambda>x. S (Fin x) @ ''%'') rs)) = map (\<lambda>x. S (Fin x) @ ''%'') rs"
    using assms by (intro split_join_comma) auto
  then show ?thesis by (simp add: serializeWidths_def m)
qed

text \<open>
  The pass for any normaliser that delivers finite numbers of sum 100.
\<close>

lemma fix_table_keeps_sum:
  assumes attr: "columnWidthsAttribute t = Some attr"
    and ws: "N (split_comma attr) = map Fin rs"
    and total: "sum_list rs = 100"
    and dis: "distinct (map fst (tableSlots t))"
    and rng: "tracked_below (length rs) cmap (tableSlots t)"
    and cols: "0 < numberOfColumns t"
  shows "\<exists>r. fix_table N S cmap ch t = Inr r
           \<and> attributeAfter r = serializeWidths S (fixedWidths r)
           \<and> (\<not> insertionHandled r \<and> \<not> insertionAtEnd r
                \<longrightarrow> (\<exists>rs'. fixedWidths r = fins rs' \<and> sum_list rs' = 100
                          \<and> length rs' = numberOfColumns t
                          \<and> ((\<forall>x \<in> set rs'. CHR '','' \<notin> set (S (Fin x)))
                               \<longrightarrow> split_comma (attributeAfter r)
                                     = map (\<lambda>x. S (Fin x) @ ''%'') rs')))"
proof -
  let ?m = "columnMinWidthAsPercentage t"
  let ?init = "\<lparr>columnWidths = fins rs, columnIndexMap = cmap, isColumnInsertionHandled = False,
               isColumnDeletionHandled = False, changed = ch\<rparr>"
  let ?fin = "walk_table ?m ?init (tableSlots t)"
  have init: "map Some (N (split_comma attr)) = fins rs"
    using ws by (simp add: fins_def)
  obtain r where r: "fix_table N S cmap ch t = Inr r"
    "fixedWidths r = handleTableEnd ?m (numberOfColumns t) (columnWidths ?fin)"
    "insertionHandled r = isColumnInsertionHandled ?fin"
    "insertionAtEnd r = (length (columnWidths ?fin) < numberOfColumns t)"
    "attributeAfter r = serializeWidths S (fixedWidths r)"
    using fix_table_Inr_full[where N = N and S = S and cmap = cmap and ch = ch, OF attr init]
    by blast
  have inv: "\<not> isColumnInsertionHandled ?fin \<longrightarrow>
           (\<exists>rs'. columnWidths ?fin = fins rs' \<and> sum_list rs' = 100
                  \<and> (\<not> isColumnDeletionHandled ?fin \<longrightarrow> length rs' = length rs))"
  proof (rule walk_table_keeps_sum)
    show "tracked_below (length rs) (columnIndexMap ?init) (tableSlots t)" using rng by simp
    show "distinct (map fst (tableSlots t))" by (rule dis)
    have "columnWidths ?init = fins rs \<and> sum_list rs = 100 \<and> length rs = length rs"
      using total by simp
    then show "\<not> isColumnInsertionHandled ?init \<longrightarrow>
           (\<exists>rs'. columnWidths ?init = fins rs' \<and> sum_list rs' = 100
                  \<and> (\<not> isColumnDeletionHandled ?init \<longrightarrow> length rs' = length rs))"
      by blast
  qed
  have "\<exists>rs'. fixedWidths r = fins rs' \<and> sum_list rs' = 100 \<and> length rs' = numberOfColumns t
          \<and> ((\<forall>x \<in> set rs'. CHR '','' \<notin> set (S (Fin x)))
               \<longrightarrow> split_comma (attributeAfter r) = map (\<lambda>x. S (Fin x) @ ''%'') rs')"
    if a: "\<not> insertionHandled r \<and> \<not> insertionAtEnd r"
  proof -
    obtain rs0 where rs0: "columnWidths ?fin = fins rs0" "sum_list rs0 = 100"
      using inv a r(3) by auto
    have "numberOfColumns t \<le> length rs0" using a r(4) rs0(1) by (simp add: length_fins)
    from handleTableEnd_keeps_sum[OF cols this, of ?m]
    obtain rs' where rs': "fixedWidths r = fins rs'" "sum_list rs' = 100"
      using r(2) rs0 by auto
    have "length (fixedWidths r) = numberOfColumns t"
      by (simp add: r(2) length_handleTableEnd)
    then have len: "length rs' = numberOfColumns t"
      by (simp add: rs'(1) length_fins)
    then have ne: "rs' \<noteq> []" using cols by auto
    have "split_comma (attributeAfter r) = map (\<lambda>x. S (Fin x) @ ''%'') rs'"
      if "\<forall>x \<in> set rs'. CHR '','' \<notin> set (S (Fin x))"
      using split_serializeWidths[OF ne that] r(5) rs'(1) by simp
    then show ?thesis using rs' len by blast
  qed
  then show ?thesis using r(1) r(5) by blast
qed

text \<open>
  The normalisation: tokens that are finite numbers of a total other than zero are
  scaled to finite numbers of sum 100.
\<close>

lemma sum_list_scaled:
  "sum_list (map (\<lambda>p. p * 100 / T) ps) = sum_list ps * 100 / (T :: rat)"
  by (induction ps) (simp_all add: add_divide_distrib distrib_right)

lemma normalizeColumnWidths_Fin:
  assumes "map parseFloat tokens = map Fin ps" and "sum_list ps \<noteq> 0"
  shows "normalizeColumnWidths tokens = map Fin (map (\<lambda>p. p * 100 / sum_list ps) ps)"
    and "sum_list (map (\<lambda>p. p * 100 / sum_list ps) ps) = 100"
    and "length (map (\<lambda>p. p * 100 / sum_list ps) ps) = length ps"
proof -
  have "sumArray (map Some (map Fin ps)) = Fin (sum_list ps)"
    using sumArray_fins[of ps] by (simp add: fins_def comp_def)
  then show "normalizeColumnWidths tokens = map Fin (map (\<lambda>p. p * 100 / sum_list ps) ps)"
    using assms by (simp add: normalizeColumnWidths_def Let_def comp_def)
  show "sum_list (map (\<lambda>p. p * 100 / sum_list ps) ps) = 100"
    using assms(2) by (simp add: sum_list_scaled)
  show "length (map (\<lambda>p. p * 100 / sum_list ps) ps) = length ps" by simp
qed

text \<open>
  Claim C1, as amended. A table that carries the attribute, with these conditions: every
  token of the attribute is read by \<open>parseFloat\<close> as a finite number and the total of
  these numbers is not zero; the walker yields every cell once; the tracked cells are
  stored at columns that have a width entry; the table has at least one column. The
  pass, with the normalisation as the spec words it, returns, and the attribute of the
  table afterwards is the serialisation of the array it leaves. When the pass handled no
  insertion, neither in the loop nor at the end of the table, that array holds one
  finite number for every column and the numbers add up to 100; and when the number
  format writes no comma for these numbers and \<open>parseFloat\<close> reads each of them back
  from its token, parsing the tokens of the attribute between the commas yields these
  numbers. A pass that handled a deletion is such a pass.
\<close>

theorem sum_is_100_unless_insertion:
  assumes attr: "columnWidthsAttribute t = Some attr"
    and toks: "map parseFloat (split_comma attr) = map Fin ps"
    and nz: "sum_list ps \<noteq> 0"
    and dis: "distinct (map fst (tableSlots t))"
    and rng: "tracked_below (length ps) cmap (tableSlots t)"
    and cols: "0 < numberOfColumns t"
  shows "\<exists>r. fix_table normalizeColumnWidths S cmap ch t = Inr r
           \<and> attributeAfter r = serializeWidths S (fixedWidths r)
           \<and> (\<not> insertionHandled r \<and> \<not> insertionAtEnd r
                \<longrightarrow> (\<exists>rs'. fixedWidths r = fins rs' \<and> sum_list rs' = 100
                          \<and> length rs' = numberOfColumns t
                          \<and> ((\<forall>x \<in> set rs'. CHR '','' \<notin> set (S (Fin x))
                                               \<and> parseFloat (S (Fin x) @ ''%'') = Fin x)
                               \<longrightarrow> map parseFloat (split_comma (attributeAfter r))
                                     = map Fin rs')))"
proof -
  let ?rs = "map (\<lambda>p. p * 100 / sum_list ps) ps"
  note n = normalizeColumnWidths_Fin[OF toks nz]
  have rng': "tracked_below (length ?rs) cmap (tableSlots t)" using rng by simp
  obtain r where r: "fix_table normalizeColumnWidths S cmap ch t = Inr r"
    "attributeAfter r = serializeWidths S (fixedWidths r)"
    "\<not> insertionHandled r \<and> \<not> insertionAtEnd r
       \<longrightarrow> (\<exists>rs'. fixedWidths r = fins rs' \<and> sum_list rs' = 100
                 \<and> length rs' = numberOfColumns t
                 \<and> ((\<forall>x \<in> set rs'. CHR '','' \<notin> set (S (Fin x)))
                      \<longrightarrow> split_comma (attributeAfter r) = map (\<lambda>x. S (Fin x) @ ''%'') rs'))"
    using fix_table_keeps_sum[where N = normalizeColumnWidths and rs = ?rs and S = S
            and ch = ch and cmap = cmap, OF attr n(1) n(2) dis rng' cols]
    by blast
  have "\<exists>rs'. fixedWidths r = fins rs' \<and> sum_list rs' = 100 \<and> length rs' = numberOfColumns t
          \<and> ((\<forall>x \<in> set rs'. CHR '','' \<notin> set (S (Fin x)) \<and> parseFloat (S (Fin x) @ ''%'') = Fin x)
               \<longrightarrow> map parseFloat (split_comma (attributeAfter r)) = map Fin rs')"
    if a: "\<not> insertionHandled r \<and> \<not> insertionAtEnd r"
  proof -
    obtain rs' where rs': "fixedWidths r = fins rs'" "sum_list rs' = 100"
      "length rs' = numberOfColumns t"
      "(\<forall>x \<in> set rs'. CHR '','' \<notin> set (S (Fin x)))
         \<longrightarrow> split_comma (attributeAfter r) = map (\<lambda>x. S (Fin x) @ ''%'') rs'"
      using r(3) a by blast
    have "map parseFloat (split_comma (attributeAfter r)) = map Fin rs'"
      if h: "\<forall>x \<in> set rs'. CHR '','' \<notin> set (S (Fin x)) \<and> parseFloat (S (Fin x) @ ''%'') = Fin x"
    proof -
      have "split_comma (attributeAfter r) = map (\<lambda>x. S (Fin x) @ ''%'') rs'"
        using rs'(4) h by blast
      then show ?thesis using h by (simp add: comp_def)
    qed
    then show ?thesis using rs'(1-3) by blast
  qed
  then show ?thesis using r(1,2) by blast
qed

theorem sum_is_100_unless_insertion_witness:
  "\<exists>r. fix_table normalizeColumnWidths numberToString [0 \<mapsto> 0, 1 \<mapsto> 1, 2 \<mapsto> 2] False
           \<lparr>columnWidthsAttribute = Some ''10%,15%,25%'', tableSlots = [(0, 0), (2, 1)],
            numberOfColumns = 2, columnMinWidthAsPercentage = Fin 10\<rparr> = Inr r
      \<and> deletionHandled r \<and> attributeAfter r = ''50%,50%''
      \<and> fixedWidths r = fins [50, 50]
      \<and> map parseFloat (split_comma (attributeAfter r)) = map Fin [50, 50]
      \<and> sum_list [50, 50 :: rat] = 100"
proof -
  let ?t = "\<lparr>columnWidthsAttribute = Some ''10%,15%,25%'', tableSlots = [(0, 0), (2, 1)],
            numberOfColumns = 2, columnMinWidthAsPercentage = Fin 10\<rparr>"
  let ?run = "fix_table normalizeColumnWidths numberToString [0 \<mapsto> 0, 1 \<mapsto> 1, 2 \<mapsto> 2] False ?t"
  have p: "map parseFloat (split_comma ''10%,15%,25%'') = map Fin [10, 15, 25]"
    by code_simp
  have nz: "sum_list [10, 15, 25 :: rat] \<noteq> 0" by simp
  have e1: "map_sum id attributeAfter ?run = Inr ''50%,50%''"
    by code_simp
  have e2: "map_sum id (\<lambda>r. (insertionHandled r, insertionAtEnd r, deletionHandled r)) ?run
              = Inr (False, False, True)"
    by code_simp
  have e3: "map_sum id fixedWidths ?run = Inr (fins [50, 50])"
    by code_simp
  have s: "CHR '','' \<notin> set (numberToString (Fin 50))"
    "parseFloat (numberToString (Fin 50) @ ''%'') = Fin 50"
    by code_simp+
  obtain r where r: "?run = Inr r"
    "\<not> insertionHandled r \<and> \<not> insertionAtEnd r
       \<longrightarrow> (\<exists>rs'. fixedWidths r = fins rs' \<and> sum_list rs' = 100
                 \<and> length rs' = numberOfColumns ?t
                 \<and> ((\<forall>x \<in> set rs'. CHR '','' \<notin> set (numberToString (Fin x))
                                      \<and> parseFloat (numberToString (Fin x) @ ''%'') = Fin x)
                      \<longrightarrow> map parseFloat (split_comma (attributeAfter r)) = map Fin rs'))"
    using sum_is_100_unless_insertion
      [where t = ?t and attr = "''10%,15%,25%''" and S = numberToString
         and ps = "[10, 15, 25]" and cmap = "[0 \<mapsto> 0, 1 \<mapsto> 1, 2 \<mapsto> 2]" and ch = False, OF _ p nz]
    by (auto simp: tracked_below_def)
  have f: "\<not> insertionHandled r" "\<not> insertionAtEnd r" "deletionHandled r"
    "attributeAfter r = ''50%,50%''" "fixedWidths r = fins [50, 50]"
    using r(1) e1 e2 e3 by simp_all
  obtain rs' where rs': "fixedWidths r = fins rs'"
    "(\<forall>x \<in> set rs'. CHR '','' \<notin> set (numberToString (Fin x))
                    \<and> parseFloat (numberToString (Fin x) @ ''%'') = Fin x)
       \<longrightarrow> map parseFloat (split_comma (attributeAfter r)) = map Fin rs'"
    using r(2) f(1,2) by blast
  have eq: "rs' = [50, 50]"
    using rs'(1) f(5) by (auto simp: fins_def)
  have "map parseFloat (split_comma (attributeAfter r)) = map Fin [50, 50]"
    using rs'(2) s unfolding eq by simp
  then show ?thesis using r(1) f by simp
qed

text \<open>
  A pass that handles an insertion: the table ''50%,50%'' with a new column between its
  two columns. The attribute after the pass is ''50%,10%,50%'', whose parsed tokens add
  up to 110.
\<close>

theorem sum_is_100_counterexample:
  "map_sum id attributeAfter
     (fix_table normalizeColumnWidths numberToString [0 \<mapsto> 0, 1 \<mapsto> 1] False
        \<lparr>columnWidthsAttribute = Some ''50%,50%'', tableSlots = [(0, 0), (2, 1), (1, 2)],
         numberOfColumns = 3, columnMinWidthAsPercentage = Fin 10\<rparr>) = Inr ''50%,10%,50%''
   \<and> map parseFloat (split_comma ''50%,10%,50%'') = [Fin 50, Fin 10, Fin 50]
   \<and> sumArray (map Some [Fin 50, Fin 10, Fin 50]) = Fin 110"
  by code_simp


text \<open>A second walk over the same slots finds every cell at its stored column.\<close>

lemma walk_slot_tracked: "columnIndexMap st c = Some col \<Longrightarrow> walk_slot m st (c, col) = st"
  by (simp add: walk_slot_def)

lemma walk_table_tracked:
  "\<forall>s \<in> set slots. columnIndexMap st (fst s) = Some (snd s) \<Longrightarrow> walk_table m st slots = st"
proof (induction slots)
  case Nil
  then show ?case by simp
next
  case (Cons slot slots)
  have "walk_slot m st slot = st"
    using Cons.prems walk_slot_tracked[of st "fst slot" "snd slot" m] by simp
  then show ?case using Cons by simp
qed

lemma walk_table_map_all:
  "distinct (map fst slots) \<Longrightarrow> s \<in> set slots
     \<Longrightarrow> columnIndexMap (walk_table m st slots) (fst s) = Some (snd s)"
proof (induction slots arbitrary: st)
  case Nil
  then show ?case by simp
next
  case (Cons slot slots)
  show ?case
  proof (cases "s \<in> set slots")
    case True
    then show ?thesis using Cons by simp
  next
    case False
    then have e: "s = slot" using Cons.prems(2) by simp
    have "fst slot \<notin> fst ` set slots" using Cons.prems(1) by simp
    then show ?thesis
      using walk_table_map_other[of "fst slot" slots m "walk_slot m st slot"] e
      by (simp add: walk_slot_map)
  qed
qed

text \<open>
  Claim C8, as amended. The fixer is run on a table and run again with no change of
  structure in between. When the attribute left by the first run is normalised already
  (split and normalised again it gives the array that the first run serialised), the
  second run calls \<open>setAttribute\<close> for no string, reports no change and leaves the same
  attribute.
\<close>

theorem second_pass_writes_nothing:
  assumes first: "fix_table N S cmap False t = Inr r1"
    and dis: "distinct (map fst (tableSlots t))"
    and stable: "map Some (N (split_comma (attributeAfter r1))) = fixedWidths r1"
  shows "\<exists>r2. second_pass N S cmap t = Inr r2 \<and> \<not> attributeWritten r2 \<and> \<not> changedAfter r2
           \<and> attributeAfter r2 = attributeAfter r1 \<and> fixedWidths r2 = fixedWidths r1"
proof -
  let ?m = "columnMinWidthAsPercentage t"
  let ?n = "numberOfColumns t"
  obtain attr where attr: "columnWidthsAttribute t = Some attr"
    using first fix_table_Inl[of N S cmap False t TypeError] by (cases "columnWidthsAttribute t") auto
  let ?one = "walk_table ?m \<lparr>columnWidths = map Some (N (split_comma attr)), columnIndexMap = cmap,
                 isColumnInsertionHandled = False, isColumnDeletionHandled = False,
                 changed = False\<rparr> (tableSlots t)"
  have r1: "fixedWidths r1 = handleTableEnd ?m ?n (columnWidths ?one)"
    "mapAfter r1 = columnIndexMap ?one"
    "attributeAfter r1 = serializeWidths S (fixedWidths r1)"
    using fix_table_Inr_full[where N = N and S = S and cmap = cmap and ch = False, OF attr refl] first
    by auto
  let ?t' = "t\<lparr>columnWidthsAttribute := Some (attributeAfter r1)\<rparr>"
  let ?two0 = "\<lparr>columnWidths = fixedWidths r1, columnIndexMap = mapAfter r1,
                 isColumnInsertionHandled = False, isColumnDeletionHandled = False,
                 changed = False\<rparr>"
  have attr': "columnWidthsAttribute ?t' = Some (attributeAfter r1)" by simp
  have tracked: "\<forall>s \<in> set (tableSlots t). columnIndexMap ?two0 (fst s) = Some (snd s)"
    using walk_table_map_all[OF dis] r1(2) by simp
  have two: "walk_table ?m ?two0 (tableSlots t) = ?two0"
    by (rule walk_table_tracked[OF tracked])
  have len: "length (fixedWidths r1) = ?n"
    by (simp add: r1(1) length_handleTableEnd)
  obtain r2 where r2: "fix_table N S (mapAfter r1) False ?t' = Inr r2"
    "fixedWidths r2 = handleTableEnd ?m ?n (columnWidths (walk_table ?m ?two0 (tableSlots t)))"
    "changedAfter r2 = (changed (walk_table ?m ?two0 (tableSlots t))
                         \<or> attributeAfter r1 \<noteq> serializeWidths S (fixedWidths r2))"
    "attributeWritten r2 = (attributeAfter r1 \<noteq> serializeWidths S (fixedWidths r2))"
    "attributeAfter r2 = serializeWidths S (fixedWidths r2)"
    using fix_table_Inr_full[where N = N and S = S and cmap = "mapAfter r1" and ch = False,
            OF attr' stable]
    by auto
  have w: "fixedWidths r2 = fixedWidths r1"
    using r2(2) two handleTableEnd_same[OF len, of ?m] by simp
  have "second_pass N S cmap t = Inr r2"
    using first r2(1) by (simp add: second_pass_def)
  then show ?thesis using r2 w r1(3) two by simp
qed

theorem second_pass_writes_nothing_witness:
  "\<exists>r2. second_pass normalizeColumnWidths numberToString [0 \<mapsto> 0, 1 \<mapsto> 1, 2 \<mapsto> 2]
           \<lparr>columnWidthsAttribute = Some ''20%,30%,50%'', tableSlots = [(0, 0), (2, 1)],
            numberOfColumns = 2, columnMinWidthAsPercentage = Fin 10\<rparr> = Inr r2
      \<and> \<not> attributeWritten r2 \<and> \<not> changedAfter r2 \<and> attributeAfter r2 = ''50%,50%''"
proof -
  let ?t = "\<lparr>columnWidthsAttribute = Some ''20%,30%,50%'', tableSlots = [(0, 0), (2, 1)],
            numberOfColumns = 2, columnMinWidthAsPercentage = Fin 10\<rparr>"
  let ?run = "fix_table normalizeColumnWidths numberToString [0 \<mapsto> 0, 1 \<mapsto> 1, 2 \<mapsto> 2] False ?t"
  obtain r1 where r1: "?run = Inr r1"
    by (cases ?run) (simp_all add: fix_table_Inl)
  have e1: "map_sum id attributeAfter ?run = Inr ''50%,50%''"
    by code_simp
  have e2: "map_sum id fixedWidths ?run = Inr [Some (Fin 50), Some (Fin 50)]"
    by code_simp
  have n: "map Some (normalizeColumnWidths (split_comma ''50%,50%'')) = [Some (Fin 50), Some (Fin 50)]"
    by code_simp
  have st: "map Some (normalizeColumnWidths (split_comma (attributeAfter r1))) = fixedWidths r1"
    using r1 e1 e2 n by simp
  have d: "distinct (map fst (tableSlots ?t))" by simp
  from second_pass_writes_nothing[OF r1 d st] show ?thesis
    using r1 e1 by auto
qed

text \<open>
  A first pass that inserts a column leaves ''50%,25%,50%''; the second pass, with no
  change of structure in between, normalises to ''40%,20%,40%'' and writes the attribute
  again.
\<close>

theorem second_pass_counterexample:
  "map_sum id attributeAfter
     (fix_table normalizeColumnWidths numberToString [0 \<mapsto> 0, 1 \<mapsto> 1] False
        \<lparr>columnWidthsAttribute = Some ''50%,50%'', tableSlots = [(0, 0), (2, 1), (1, 2)],
         numberOfColumns = 3, columnMinWidthAsPercentage = Fin 25\<rparr>) = Inr ''50%,25%,50%''
   \<and> map_sum id attributeWritten
       (second_pass normalizeColumnWidths numberToString [0 \<mapsto> 0, 1 \<mapsto> 1]
          \<lparr>columnWidthsAttribute = Some ''50%,50%'', tableSlots = [(0, 0), (2, 1), (1, 2)],
           numberOfColumns = 3, columnMinWidthAsPercentage = Fin 25\<rparr>) = Inr True
   \<and> map_sum id attributeAfter
       (second_pass normalizeColumnWidths numberToString [0 \<mapsto> 0, 1 \<mapsto> 1]
          \<lparr>columnWidthsAttribute = Some ''50%,50%'', tableSlots = [(0, 0), (2, 1), (1, 2)],
           numberOfColumns = 3, columnMinWidthAsPercentage = Fin 25\<rparr>) = Inr ''40%,20%,40%''"
  by code_simp


section \<open>The press\<close>

lemma onMouseDownHandler_model:
  "model (onMouseDownHandler P S s ev) = model s"
  "executed (onMouseDownHandler P S s ev) = executed s"
  by (simp_all add: onMouseDownHandler_def Let_def)

lemma onMouseDownHandler_ignored:
  assumes "\<not> targetIsResizer ev \<or> \<not> isResizingAllowed s"
  shows "resizingData (onMouseDownHandler P S s ev) = resizingData s"
    and "isResizingActive (onMouseDownHandler P S s ev) = isResizingActive s"
    and "view (onMouseDownHandler P S s ev) = view s"
  using assms by (auto simp: onMouseDownHandler_def)

lemma onMouseDownHandler_opens:
  assumes "targetIsResizer ev" and "isResizingAllowed s"
  shows "isResizingActive (onMouseDownHandler P S s ev)"
    and "isResizingAllowed (onMouseDownHandler P S s ev)"
    and "\<exists>d. resizingData (onMouseDownHandler P S s ev) = Some d
             \<and> columnPosition d = clientX ev \<and> viewResizer d = target ev"
    and "\<exists>cols. viewColgroup (view (onMouseDownHandler P S s ev)) = Some cols"
  using assms
  by (auto simp: onMouseDownHandler_def Let_def getResizingData_def
      applyResizingAttributesToTable_def insertColgroupElement_def split: option.splits)

text \<open>
  Claim C5, as amended. The controller has one slot for the data of a session. While a
  session is open, a further press leaves the session and its data as they are when its
  target is not a resizer or when resizing is not allowed; a press on a resizer while
  resizing is allowed keeps the session open and replaces its data by the data of the
  new press. The press is gated by the class of the target and by the flag
  \<open>_isResizingAllowed\<close>, not by \<open>_isResizingActive\<close>.
\<close>

theorem press_while_session_open:
  assumes "isResizingActive s"
  shows "(\<not> targetIsResizer ev \<or> \<not> isResizingAllowed s
            \<longrightarrow> resizingData (onMouseDownHandler P S s ev) = resizingData s
              \<and> isResizingActive (onMouseDownHandler P S s ev)
              \<and> view (onMouseDownHandler P S s ev) = view s)
       \<and> (targetIsResizer ev \<and> isResizingAllowed s
            \<longrightarrow> isResizingActive (onMouseDownHandler P S s ev)
              \<and> (\<exists>d. resizingData (onMouseDownHandler P S s ev) = Some d
                     \<and> columnPosition d = clientX ev \<and> viewResizer d = target ev))"
  using assms onMouseDownHandler_ignored[of ev s P S] onMouseDownHandler_opens[of ev s P S]
  by blast

theorem press_while_session_open_witness:
  "isResizingActive (onMouseDownHandler toPrecision numberToString resized (pressOn 0 100))
   \<and> (\<exists>d. resizingData (onMouseDownHandler toPrecision numberToString
               (onMouseDownHandler toPrecision numberToString resized (pressOn 0 100))
               (pressOn 1 300)) = Some d
          \<and> columnPosition d = Fin 300 \<and> viewResizer d = 1)
   \<and> resizingData (onMouseDownHandler toPrecision numberToString
               (onMouseDownHandler toPrecision numberToString resized (pressOn 0 100))
               ((pressOn 1 300)\<lparr>targetIsResizer := False\<rparr>))
       = resizingData (onMouseDownHandler toPrecision numberToString resized (pressOn 0 100))"
proof -
  let ?s = "onMouseDownHandler toPrecision numberToString resized (pressOn 0 100)"
  have a: "isResizingActive ?s" and al: "isResizingAllowed ?s"
    by (simp_all add: onMouseDownHandler_def resized_def pressOn_def Let_def)
  from press_while_session_open[OF a, of "pressOn 1 300" toPrecision numberToString]
       press_while_session_open[OF a, of "(pressOn 1 300)\<lparr>targetIsResizer := False\<rparr>"
         toPrecision numberToString]
  show ?thesis using a al by (simp add: pressOn_def)
qed

text \<open>
  A press on the resizer of the first column opens a session anchored at 100; a second
  press, on the resizer of the second column at 300, replaces the data of the session.
\<close>

theorem press_while_session_open_counterexample:
  "isResizingActive (onMouseDownHandler toPrecision numberToString resized (pressOn 0 100))
   \<and> map_option columnPosition
        (resizingData (onMouseDownHandler toPrecision numberToString resized (pressOn 0 100)))
       = Some (Fin 100)
   \<and> map_option columnPosition
        (resizingData (onMouseDownHandler toPrecision numberToString
           (onMouseDownHandler toPrecision numberToString resized (pressOn 0 100))
           (pressOn 1 300)))
       = Some (Fin 300)"
  by code_simp


section \<open>The offset of a drag step\<close>

lemma multiplier_Fin:
  "multiplier d = Fin ((if isLtrContent d then 1 else - 1)
                       * (if isRightEdge d \<and> isTableCentered d then 2 else 1))"
  by (simp add: multiplier_def)

lemma clamp_zero:
  "clamp (Fin 0) (js_min lo (Fin 0)) (js_max hi (Fin 0)) = Fin 0"
  by (cases lo; cases hi) (auto simp: clamp_def)

lemma dragOffset_anchor:
  assumes "columnPosition d = Fin x"
  shows "dragOffset M d (Fin x) = Fin 0"
  using assms clamp_zero by (simp add: dragOffset_def js_sub_def multiplier_Fin)

text \<open>The offset for finite measurements.\<close>

lemma dragOffset_Fin:
  assumes "columnPosition d = Fin x0" and "leftColumnWidth d = Some (Fin l)"
    and "tableWidth d = Fin tw" and "viewFigureParentWidth d = Fin pw"
    and "\<not> isRightEdge d \<longrightarrow> rightColumnWidth d = Some (Fin r)"
  shows "dragOffset (Fin m) d (Fin x) =
           Fin (let raw = (x - x0) * ((if isLtrContent d then 1 else - 1)
                                      * (if isRightEdge d \<and> isTableCentered d then 2 else 1));
                    lo = min (m - l) 0;
                    hi = max (if isRightEdge d then pw - tw else r - m) 0
                in if raw \<le> lo then lo else if hi \<le> raw then hi else raw)"
  using assms
  by (auto simp: dragOffset_def js_sub_def multiplier_Fin dxLowerBound_def dxUpperBound_def
      to_number_def clamp_def Let_def min_def max_def)


lemma js_lt_not_le: "js_lt a b \<Longrightarrow> \<not> js_le b a"
  by (cases a; cases b) auto

lemma clamp_within: "js_lt lo v \<Longrightarrow> js_lt v hi \<Longrightarrow> clamp v lo hi = v"
  by (simp add: clamp_def js_lt_not_le)

section \<open>A drag step\<close>

lemma onMouseMoveHandler_step:
  assumes act: "isResizingActive s" and alw: "isResizingAllowed s" and dat: "resizingData s = Some d"
    and cg: "viewColgroup (view s) = Some cols"
    and left: "viewLeftColumn d = Some i" and right: "\<not> isRightEdge d \<longrightarrow> viewRightColumn d = Some j"
    and moved: "dragOffset M d x \<noteq> Fin 0"
  shows "onMouseMoveHandler P S M s x =
           Inr (s\<lparr>view :=
                  (if isRightEdge d
                   then (view s)\<lparr>viewColgroup := Some (cols[i := Some (asPercentage P S
                                     (js_add (to_number (leftColumnWidth d)) (dragOffset M d x))
                                     (tableWidth d))]),
                                 viewFigureStyleWidth := Some (asPercentage P S
                                     (js_add (tableWidth d) (dragOffset M d x))
                                     (viewFigureParentWidth d))\<rparr>
                   else (view s)\<lparr>viewColgroup := Some (cols[i := Some (asPercentage P S
                                     (js_add (to_number (leftColumnWidth d)) (dragOffset M d x))
                                     (tableWidth d)),
                                   j := Some (asPercentage P S
                                     (js_sub (to_number (rightColumnWidth d)) (dragOffset M d x))
                                     (tableWidth d))])\<rparr>)\<rparr>)"
  using assms by (simp add: onMouseMoveHandler_def setColumnWidth_def Let_def)

lemma onMouseMoveHandler_still:
  assumes "isResizingActive s" and "isResizingAllowed s" and "resizingData s = Some d"
    and "dragOffset M d x = Fin 0"
  shows "onMouseMoveHandler P S M s x = Inr s"
  using assms by (simp add: onMouseMoveHandler_def Let_def)

text \<open>
  Claim C7, as amended. During a drag the multiplier is -1 for right-to-left content and
  is doubled exactly when the dragged edge is the rightmost edge of a centred table. The
  applied offset is the raw pointer offset times the multiplier, clamped between the
  lower bound (or 0) and the upper bound (or 0); within these bounds it is the raw
  offset times the multiplier. A step with an offset other than zero leaves the model
  as it is; on the right edge it sets the width of the left column and of the figure
  only, and on an inner boundary the widths of the left and the right column only, the
  width of the figure staying as it was.
\<close>

theorem drag_step_updates:
  assumes act: "isResizingActive s" and alw: "isResizingAllowed s" and dat: "resizingData s = Some d"
    and cg: "viewColgroup (view s) = Some cols"
    and left: "viewLeftColumn d = Some i" and right: "\<not> isRightEdge d \<longrightarrow> viewRightColumn d = Some j"
    and moved: "dragOffset M d x \<noteq> Fin 0"
  shows "multiplier d = Fin ((if isLtrContent d then 1 else - 1)
                             * (if isRightEdge d \<and> isTableCentered d then 2 else 1))
     \<and> dragOffset M d x = clamp (js_mul (js_sub x (columnPosition d)) (multiplier d))
                              (js_min (dxLowerBound M d) (Fin 0)) (js_max (dxUpperBound M d) (Fin 0))
     \<and> (js_lt (js_min (dxLowerBound M d) (Fin 0)) (js_mul (js_sub x (columnPosition d)) (multiplier d))
          \<and> js_lt (js_mul (js_sub x (columnPosition d)) (multiplier d)) (js_max (dxUpperBound M d) (Fin 0))
        \<longrightarrow> dragOffset M d x = js_mul (js_sub x (columnPosition d)) (multiplier d))
     \<and> (\<exists>s'. onMouseMoveHandler P S M s x = Inr s' \<and> model s' = model s \<and> executed s' = executed s
          \<and> (isRightEdge d \<longrightarrow>
                viewColgroup (view s') = Some (cols[i := Some (asPercentage P S
                    (js_add (to_number (leftColumnWidth d)) (dragOffset M d x)) (tableWidth d))])
              \<and> viewFigureStyleWidth (view s') = Some (asPercentage P S
                    (js_add (tableWidth d) (dragOffset M d x)) (viewFigureParentWidth d)))
          \<and> (\<not> isRightEdge d \<longrightarrow>
                viewColgroup (view s') = Some (cols[i := Some (asPercentage P S
                    (js_add (to_number (leftColumnWidth d)) (dragOffset M d x)) (tableWidth d)),
                  j := Some (asPercentage P S
                    (js_sub (to_number (rightColumnWidth d)) (dragOffset M d x)) (tableWidth d))])
              \<and> viewFigureStyleWidth (view s') = viewFigureStyleWidth (view s)))"
proof (intro conjI)
  show "multiplier d = Fin ((if isLtrContent d then 1 else - 1)
                             * (if isRightEdge d \<and> isTableCentered d then 2 else 1))"
    by (rule multiplier_Fin)
  show "dragOffset M d x = clamp (js_mul (js_sub x (columnPosition d)) (multiplier d))
                              (js_min (dxLowerBound M d) (Fin 0)) (js_max (dxUpperBound M d) (Fin 0))"
    by (simp add: dragOffset_def)
  show "js_lt (js_min (dxLowerBound M d) (Fin 0)) (js_mul (js_sub x (columnPosition d)) (multiplier d))
          \<and> js_lt (js_mul (js_sub x (columnPosition d)) (multiplier d)) (js_max (dxUpperBound M d) (Fin 0))
        \<longrightarrow> dragOffset M d x = js_mul (js_sub x (columnPosition d)) (multiplier d)"
    by (simp add: dragOffset_def clamp_within)
  show "\<exists>s'. onMouseMoveHandler P S M s x = Inr s' \<and> model s' = model s \<and> executed s' = executed s
          \<and> (isRightEdge d \<longrightarrow>
                viewColgroup (view s') = Some (cols[i := Some (asPercentage P S
                    (js_add (to_number (leftColumnWidth d)) (dragOffset M d x)) (tableWidth d))])
              \<and> viewFigureStyleWidth (view s') = Some (asPercentage P S
                    (js_add (tableWidth d) (dragOffset M d x)) (viewFigureParentWidth d)))
          \<and> (\<not> isRightEdge d \<longrightarrow>
                viewColgroup (view s') = Some (cols[i := Some (asPercentage P S
                    (js_add (to_number (leftColumnWidth d)) (dragOffset M d x)) (tableWidth d)),
                  j := Some (asPercentage P S
                    (js_sub (to_number (rightColumnWidth d)) (dragOffset M d x)) (tableWidth d))])
              \<and> viewFigureStyleWidth (view s') = viewFigureStyleWidth (view s))"
    using onMouseMoveHandler_step[OF act alw dat cg left right moved, of P S] by simp
qed

theorem drag_step_updates_witness:
  "dragOffset (Fin 40) innerSession (Fin 510) = Fin 10
   \<and> (\<exists>s'. onMouseMoveHandler toPrecision numberToString (Fin 40)
              (resized\<lparr>isResizingActive := True, resizingData := Some innerSession\<rparr>) (Fin 510) = Inr s'
          \<and> model s' = model resized
          \<and> viewColgroup (view s') = Some [Some ''55%'', Some ''45%'']
          \<and> viewFigureStyleWidth (view s') = Some ''50%'')
   \<and> dragOffset (Fin 40) overflowingSession (Fin 490) = Fin (- 20)
   \<and> (\<exists>s'. onMouseMoveHandler toPrecision numberToString (Fin 40)
              (resized\<lparr>isResizingActive := True, resizingData := Some overflowingSession\<rparr>) (Fin 490) = Inr s'
          \<and> model s' = model resized
          \<and> viewColgroup (view s') = Some [Some ''50%'', Some ''16%'']
          \<and> viewFigureStyleWidth (view s') = Some ''120%'')"
proof -
  let ?s1 = "resized\<lparr>isResizingActive := True, resizingData := Some innerSession\<rparr>"
  let ?s2 = "resized\<lparr>isResizingActive := True, resizingData := Some overflowingSession\<rparr>"
  have d1: "dragOffset (Fin 40) innerSession (Fin 510) = Fin 10"
    and d2: "dragOffset (Fin 40) overflowingSession (Fin 490) = Fin (- 20)"
    by code_simp+
  have p1: "asPercentage toPrecision numberToString (js_add (to_number (leftColumnWidth innerSession)) (Fin 10)) (tableWidth innerSession) = ''55%''"
    and p2: "asPercentage toPrecision numberToString (js_sub (to_number (rightColumnWidth innerSession)) (Fin 10)) (tableWidth innerSession) = ''45%''"
    and p3: "asPercentage toPrecision numberToString (js_add (to_number (leftColumnWidth overflowingSession)) (Fin (- 20))) (tableWidth overflowingSession) = ''16%''"
    and p4: "asPercentage toPrecision numberToString (js_add (tableWidth overflowingSession) (Fin (- 20))) (viewFigureParentWidth overflowingSession) = ''120%''"
    by code_simp+
  have act: "isResizingActive ?s1" "isResizingActive ?s2" by simp_all
  have alw: "isResizingAllowed ?s1" "isResizingAllowed ?s2" by (simp_all add: resized_def)
  have dat: "resizingData ?s1 = Some innerSession" "resizingData ?s2 = Some overflowingSession"
    by simp_all
  have cg: "viewColgroup (view ?s1) = Some [Some ''50%'', Some ''50%'']"
    "viewColgroup (view ?s2) = Some [Some ''50%'', Some ''50%'']"
    by (simp_all add: resized_def)
  have fig: "viewFigureStyleWidth (view ?s1) = Some ''50%''" by (simp add: resized_def)
  have l1: "viewLeftColumn innerSession = Some 0"
    and r1: "\<not> isRightEdge innerSession \<longrightarrow> viewRightColumn innerSession = Some 1"
    and e1: "\<not> isRightEdge innerSession"
    by (simp_all add: innerSession_def)
  have l2: "viewLeftColumn overflowingSession = Some 1"
    and r2: "\<not> isRightEdge overflowingSession \<longrightarrow> viewRightColumn overflowingSession = Some 0"
    and e2: "isRightEdge overflowingSession"
    by (simp_all add: overflowingSession_def)
  have m1: "dragOffset (Fin 40) innerSession (Fin 510) \<noteq> Fin 0" by (simp add: d1)
  have m2: "dragOffset (Fin 40) overflowingSession (Fin 490) \<noteq> Fin 0" by (simp add: d2)
  note t1 = drag_step_updates[OF act(1) alw(1) dat(1) cg(1) l1 r1 m1, of toPrecision numberToString]
  note t2 = drag_step_updates[OF act(2) alw(2) dat(2) cg(2) l2 r2 m2, of toPrecision numberToString]
  have a: "\<exists>s'. onMouseMoveHandler toPrecision numberToString (Fin 40) ?s1 (Fin 510) = Inr s'
          \<and> model s' = model resized
          \<and> viewColgroup (view s') = Some [Some ''55%'', Some ''45%'']
          \<and> viewFigureStyleWidth (view s') = Some ''50%''"
    using conjunct2[OF conjunct2[OF conjunct2[OF t1]]] e1 fig by (auto simp: d1 p1 p2)
  have b: "\<exists>s'. onMouseMoveHandler toPrecision numberToString (Fin 40) ?s2 (Fin 490) = Inr s'
          \<and> model s' = model resized
          \<and> viewColgroup (view s') = Some [Some ''50%'', Some ''16%'']
          \<and> viewFigureStyleWidth (view s') = Some ''120%''"
    using conjunct2[OF conjunct2[OF conjunct2[OF t2]]] e2 by (auto simp: d2 p3 p4)
  from a b d1 d2 show ?thesis by blast
qed

text \<open>
  On an inner boundary with a left column of 100 pixels and a minimum of 40, the pointer
  moves 200 pixels to the left of the anchor: the raw offset times the multiplier is
  -200, the applied offset is -60.
\<close>

theorem drag_step_updates_counterexample:
  "js_mul (js_sub (Fin 300) (columnPosition innerSession)) (multiplier innerSession) = Fin (- 200)
   \<and> dragOffset (Fin 40) innerSession (Fin 300) = Fin (- 60)"
  by code_simp


text \<open>
  Claim C9, as amended. For finite measurements the clamped offset \<open>dx\<close> of a drag step
  is finite, and: a left column that started at or above the minimum width stays at or
  above it; on the rightmost edge, a table that started within its container stays
  within it (and a table that started wider does not grow); on an inner boundary, a
  right column that started at or above the minimum stays at or above it. A step whose
  clamped offset is zero returns the state as it is, with no view update.
\<close>

theorem drag_offset_bounds:
  assumes pos: "columnPosition d = Fin x0" and lw: "leftColumnWidth d = Some (Fin l)"
    and tw: "tableWidth d = Fin tw" and pw: "viewFigureParentWidth d = Fin pw"
    and rw: "\<not> isRightEdge d \<longrightarrow> rightColumnWidth d = Some (Fin r)"
  shows "(\<exists>dx. dragOffset (Fin m) d (Fin x) = Fin dx
             \<and> (m \<le> l \<longrightarrow> m \<le> l + dx)
             \<and> (isRightEdge d \<longrightarrow> (tw \<le> pw \<longrightarrow> tw + dx \<le> pw) \<and> tw + dx \<le> max pw tw)
             \<and> (\<not> isRightEdge d \<longrightarrow> (m \<le> r \<longrightarrow> m \<le> r - dx)))
       \<and> (isResizingActive s \<and> isResizingAllowed s \<and> resizingData s = Some d
            \<and> dragOffset (Fin m) d (Fin x) = Fin 0
          \<longrightarrow> onMouseMoveHandler P S (Fin m) s (Fin x) = Inr s)"
proof (intro conjI)
  let ?raw = "(x - x0) * ((if isLtrContent d then 1 else - 1)
                          * (if isRightEdge d \<and> isTableCentered d then 2 else 1))"
  let ?lo = "min (m - l) 0"
  let ?hi = "max (if isRightEdge d then pw - tw else r - m) 0"
  let ?dx = "if ?raw \<le> ?lo then ?lo else if ?hi \<le> ?raw then ?hi else ?raw"
  have dx: "dragOffset (Fin m) d (Fin x) = Fin ?dx"
    using dragOffset_Fin[OF pos lw tw pw rw, of m x] by (simp add: Let_def)
  have lo: "?lo \<le> ?dx" and hi: "?dx \<le> ?hi" by auto
  have a: "m \<le> l \<longrightarrow> m \<le> l + ?dx" using lo by auto
  have b: "isRightEdge d \<longrightarrow> (tw \<le> pw \<longrightarrow> tw + ?dx \<le> pw) \<and> tw + ?dx \<le> max pw tw"
    using hi by auto
  have c: "\<not> isRightEdge d \<longrightarrow> (m \<le> r \<longrightarrow> m \<le> r - ?dx)" using hi by auto
  show "\<exists>dx. dragOffset (Fin m) d (Fin x) = Fin dx
             \<and> (m \<le> l \<longrightarrow> m \<le> l + dx)
             \<and> (isRightEdge d \<longrightarrow> (tw \<le> pw \<longrightarrow> tw + dx \<le> pw) \<and> tw + dx \<le> max pw tw)
             \<and> (\<not> isRightEdge d \<longrightarrow> (m \<le> r \<longrightarrow> m \<le> r - dx))"
    using dx a b c by blast
  show "isResizingActive s \<and> isResizingAllowed s \<and> resizingData s = Some d
            \<and> dragOffset (Fin m) d (Fin x) = Fin 0
          \<longrightarrow> onMouseMoveHandler P S (Fin m) s (Fin x) = Inr s"
    using onMouseMoveHandler_still[of s d "Fin m" "Fin x" P S] by blast
qed

theorem drag_offset_bounds_witness:
  "dragOffset (Fin 40) innerSession (Fin 300) = Fin (- 60)
   \<and> dragOffset (Fin 40) innerSession (Fin 900) = Fin 60
   \<and> (\<exists>dx. dragOffset (Fin 40) innerSession (Fin 900) = Fin dx \<and> 40 \<le> 100 - dx)
   \<and> (\<exists>dx. dragOffset (Fin 40) innerSession (Fin 300) = Fin dx \<and> 40 \<le> 100 + dx)
   \<and> onMouseMoveHandler toPrecision numberToString (Fin 40)
        (resized\<lparr>isResizingActive := True, resizingData := Some innerSession\<rparr>) (Fin 500)
       = Inr (resized\<lparr>isResizingActive := True, resizingData := Some innerSession\<rparr>)"
proof -
  let ?s = "resized\<lparr>isResizingActive := True, resizingData := Some innerSession\<rparr>"
  have f: "columnPosition innerSession = Fin 500" "leftColumnWidth innerSession = Some (Fin 100)"
    "tableWidth innerSession = Fin 200" "viewFigureParentWidth innerSession = Fin 400"
    "\<not> isRightEdge innerSession \<longrightarrow> rightColumnWidth innerSession = Some (Fin 100)"
    and e: "\<not> isRightEdge innerSession"
    by (simp_all add: innerSession_def)
  have d1: "dragOffset (Fin 40) innerSession (Fin 300) = Fin (- 60)"
    and d2: "dragOffset (Fin 40) innerSession (Fin 900) = Fin 60"
    and d3: "dragOffset (Fin 40) innerSession (Fin 500) = Fin 0"
    by code_simp+
  have st: "isResizingActive ?s \<and> isResizingAllowed ?s \<and> resizingData ?s = Some innerSession"
    by (simp add: resized_def)
  note t1 = drag_offset_bounds[OF f, of 40 900 ?s toPrecision numberToString]
  note t2 = drag_offset_bounds[OF f, of 40 300 ?s toPrecision numberToString]
  note t3 = drag_offset_bounds[OF f, of 40 500 ?s toPrecision numberToString]
  have a: "\<exists>dx. dragOffset (Fin 40) innerSession (Fin 900) = Fin dx \<and> 40 \<le> 100 - dx"
    using conjunct1[OF t1] e by auto
  have b: "\<exists>dx. dragOffset (Fin 40) innerSession (Fin 300) = Fin dx \<and> 40 \<le> 100 + dx"
    using conjunct1[OF t2] by auto
  have c: "onMouseMoveHandler toPrecision numberToString (Fin 40) ?s (Fin 500) = Inr ?s"
    using conjunct2[OF t3] st d3 by blast
  from a b c d1 d2 show ?thesis by blast
qed

text \<open>
  The right edge of a centred table that is 500 pixels wide in a container of 400
  pixels, dragged 10 pixels to the left: the offset is -20, and the table, at
  480 pixels (a figure width of 120%), is still wider than its container.
\<close>

theorem drag_offset_bounds_counterexample:
  "isRightEdge overflowingSession
   \<and> tableWidth overflowingSession = Fin 500
   \<and> viewFigureParentWidth overflowingSession = Fin 400
   \<and> dragOffset (Fin 40) overflowingSession (Fin 490) = Fin (- 20)
   \<and> js_lt (viewFigureParentWidth overflowingSession)
        (js_add (tableWidth overflowingSession) (dragOffset (Fin 40) overflowingSession (Fin 490)))
   \<and> map_sum id (viewFigureStyleWidth \<circ> view)
        (onMouseMoveHandler toPrecision numberToString (Fin 40)
           (resized\<lparr>isResizingActive := True, resizingData := Some overflowingSession\<rparr>) (Fin 490))
       = Inr (Some ''120%'')"
  by code_simp


section \<open>Runs of the handlers\<close>

lemma run_append:
  "run P S M s (es @ fs) = (case run P S M s es of Inl e \<Rightarrow> Inl e | Inr s' \<Rightarrow> run P S M s' fs)"
  by (induction es arbitrary: s) (simp_all split: sum.splits)

lemma run_still_moves:
  assumes "\<not> isResizingActive s
           \<or> (isResizingAllowed s \<and> (\<exists>d. resizingData s = Some d \<and> columnPosition d = Fin x))"
  shows "run P S M s (replicate k (MouseMove (Fin x))) = Inr s"
proof (induction k)
  case 0
  then show ?case by simp
next
  case (Suc k)
  have "onMouseMoveHandler P S M s (Fin x) = Inr s"
  proof (cases "isResizingActive s")
    case False
    then show ?thesis by (simp add: onMouseMoveHandler_def)
  next
    case True
    then obtain d where d: "isResizingAllowed s" "resizingData s = Some d" "columnPosition d = Fin x"
      using assms by auto
    show ?thesis
      using onMouseMoveHandler_still[OF True d(1) d(2) dragOffset_anchor[OF d(3)]] by simp
  qed
  then show ?case using Suc by (simp add: handle_def)
qed

lemma run_idle_moves:
  assumes "\<not> isResizingActive s"
  shows "run P S M s (map MouseMove ys) = Inr s"
  using assms by (induction ys) (simp_all add: handle_def onMouseMoveHandler_def)

lemma onMouseUpHandler_idle:
  "\<not> isResizingActive s \<Longrightarrow> onMouseUpHandler P S s = Inr (s\<lparr>isResizingAllowed := True\<rparr>)"
  by (simp add: onMouseUpHandler_def)

lemma onMouseUpHandler_unchanged:
  assumes "isResizingActive s" and "resizingData s = Some d"
    and "viewColgroup (view s) = Some cols"
    and "modelColumnWidths (model s) = Some (joinedColumnWidths cols)"
    and "modelTableWidth (model s) = viewFigureStyleWidth (view s)"
  shows "\<exists>s'. onMouseUpHandler P S s = Inr s' \<and> model s' = model s \<and> executed s' = executed s
           \<and> \<not> isResizingActive s'"
  using assms by (simp add: onMouseUpHandler_def Let_def)

text \<open>
  Claim C4, as amended. A cycle of a press, any number of pointer moves at the position
  of the press, and a release, starting with no session open. When the widths rendered
  after the press are the stored ones (the width styles of the colgroup, joined, are the
  \<open>columnWidths\<close> attribute, and the width style that the press gives the figure is the
  \<open>tableWidth\<close> attribute), the cycle executes no command and leaves the attributes of
  the table as they were. A press that opens no session needs no such condition.
\<close>

theorem still_cycle_no_mutation:
  assumes idle: "\<not> isResizingActive s" and x: "clientX ev = Fin x"
    and synced: "targetIsResizer ev \<and> isResizingAllowed s \<longrightarrow>
        (\<exists>cols. viewColgroup (view (onMouseDownHandler P S s ev)) = Some cols
              \<and> modelColumnWidths (model s) = Some (joinedColumnWidths cols))
        \<and> modelTableWidth (model s) = viewFigureStyleWidth (view (onMouseDownHandler P S s ev))"
  shows "\<exists>s'. run P S M s (MouseDown ev # replicate k (MouseMove (Fin x)) @ [MouseUp]) = Inr s'
           \<and> model s' = model s \<and> executed s' = executed s \<and> \<not> isResizingActive s'"
proof -
  let ?s1 = "onMouseDownHandler P S s ev"
  have m1: "model ?s1 = model s" "executed ?s1 = executed s"
    by (rule onMouseDownHandler_model)+
  have up: "\<exists>s'. onMouseUpHandler P S ?s1 = Inr s' \<and> model s' = model s \<and> executed s' = executed s
           \<and> \<not> isResizingActive s'"
    and still: "\<not> isResizingActive ?s1
           \<or> (isResizingAllowed ?s1 \<and> (\<exists>d. resizingData ?s1 = Some d \<and> columnPosition d = Fin x))"
  proof -
    show "\<exists>s'. onMouseUpHandler P S ?s1 = Inr s' \<and> model s' = model s \<and> executed s' = executed s
           \<and> \<not> isResizingActive s'"
    proof (cases "targetIsResizer ev \<and> isResizingAllowed s")
      case True
      then obtain d where d: "resizingData ?s1 = Some d"
        using onMouseDownHandler_opens(3)[of ev s P S] by blast
      obtain cols where cols: "viewColgroup (view ?s1) = Some cols"
        "modelColumnWidths (model s) = Some (joinedColumnWidths cols)"
        "modelTableWidth (model s) = viewFigureStyleWidth (view ?s1)"
        using synced True by blast
      show ?thesis
        using onMouseUpHandler_unchanged[of ?s1 d cols P S]
          onMouseDownHandler_opens(1)[of ev s P S] True d cols m1 by simp
    next
      case False
      then have "\<not> isResizingActive ?s1"
        using onMouseDownHandler_ignored(2)[of ev s P S] idle by blast
      then show ?thesis using onMouseUpHandler_idle[of ?s1 P S] m1 by simp
    qed
    show "\<not> isResizingActive ?s1
           \<or> (isResizingAllowed ?s1 \<and> (\<exists>d. resizingData ?s1 = Some d \<and> columnPosition d = Fin x))"
    proof (cases "targetIsResizer ev \<and> isResizingAllowed s")
      case True
      then show ?thesis
        using onMouseDownHandler_opens(2,3)[of ev s P S] x by auto
    next
      case False
      then show ?thesis using onMouseDownHandler_ignored(2)[of ev s P S] idle by blast
    qed
  qed
  have "run P S M s (MouseDown ev # replicate k (MouseMove (Fin x)) @ [MouseUp])
          = onMouseUpHandler P S ?s1"
    using run_still_moves[OF still, of P S M k]
    by (simp add: handle_def run_append split: sum.splits)
  then show ?thesis using up by simp
qed

theorem still_cycle_no_mutation_witness:
  "\<exists>s'. run toPrecision numberToString (Fin 40) resized
           (MouseDown (pressOn 0 100) # replicate 2 (MouseMove (Fin 100)) @ [MouseUp]) = Inr s'
      \<and> model s' = model resized \<and> executed s' = [] \<and> \<not> isResizingActive s'"
proof -
  have v: "viewColgroup (view (onMouseDownHandler toPrecision numberToString resized (pressOn 0 100)))
             = Some [Some ''50%'', Some ''50%'']"
    "viewFigureStyleWidth (view (onMouseDownHandler toPrecision numberToString resized (pressOn 0 100)))
             = Some ''50%''"
    by code_simp+
  have j: "joinedColumnWidths [Some ''50%'', Some ''50%''] = ''50%,50%''"
    by code_simp
  have m: "modelColumnWidths (model resized) = Some ''50%,50%''"
    "modelTableWidth (model resized) = Some ''50%''" "\<not> isResizingActive resized"
    "executed resized = []"
    by (simp_all add: resized_def)
  have x: "clientX (pressOn 0 100) = Fin 100" by (simp add: pressOn_def)
  from still_cycle_no_mutation[OF m(3) x, of toPrecision numberToString "Fin 40" 2]
  show ?thesis using v j m by simp
qed

text \<open>
  A press on a resizer of a table that was never resized, and a release with no move in
  between: the command \<open>resizeTableWidth\<close> is executed and the table gets both
  attributes.
\<close>

theorem still_cycle_counterexample:
  "modelColumnWidths (model neverResized) = None
   \<and> modelTableWidth (model neverResized) = None
   \<and> map_sum id executed
        (run toPrecision numberToString (Fin 40) neverResized [MouseDown (pressOn 0 100), MouseUp])
       = Inr [ResizeTableWidth ''50%'' ''50%,50%'']
   \<and> map_sum id (modelColumnWidths \<circ> model)
        (run toPrecision numberToString (Fin 40) neverResized [MouseDown (pressOn 0 100), MouseUp])
       = Inr (Some ''50%,50%'')
   \<and> map_sum id (modelTableWidth \<circ> model)
        (run toPrecision numberToString (Fin 40) neverResized [MouseDown (pressOn 0 100), MouseUp])
       = Inr (Some ''50%'')"
  by code_simp


section \<open>A session that ends while resizing is not allowed\<close>

lemma join_split_comma: "join_comma (split_comma w) = w"
proof (induction w)
  case Nil
  then show ?case by simp
next
  case (Cons c w)
  show ?case
  proof (cases "c = CHR '',''")
    case True
    then show ?thesis using Cons by (cases "split_comma w") simp_all
  next
    case False
    then show ?thesis using Cons
      by (cases "split_comma w"; cases "tl (split_comma w)") auto
  qed
qed

lemma restoredColumns_all:
  assumes "length (split_comma w) = length cols"
  shows "restoredColumns w cols = map Some (split_comma w)"
proof -
  have "map (read_at (map Some (split_comma w))) [0 ..< length (split_comma w)]
          = map (\<lambda>i. map Some (split_comma w) ! i) [0 ..< length (map Some (split_comma w))]"
    by (simp add: read_at_def)
  also have "\<dots> = map Some (split_comma w)" by (rule map_nth)
  finally show ?thesis using assms by (simp add: restoredColumns_def)
qed

lemma joinedColumnWidths_Some: "joinedColumnWidths (map Some toks) = join_comma toks"
  by (simp add: joinedColumnWidths_def comp_def)

lemma onMouseMoveHandler_allowed:
  assumes act: "isResizingActive s" and alw: "isResizingAllowed s" and dat: "resizingData s = Some d"
    and cg: "viewColgroup (view s) = Some cols"
    and left: "viewLeftColumn d \<noteq> None" and right: "isRightEdge d \<or> viewRightColumn d \<noteq> None"
  shows "\<exists>s' cols'. onMouseMoveHandler P S M s x = Inr s'
           \<and> isResizingActive s' \<and> isResizingAllowed s' \<and> resizingData s' = Some d
           \<and> viewColgroup (view s') = Some cols' \<and> length cols' = length cols
           \<and> model s' = model s \<and> executed s' = executed s"
proof (cases "dragOffset M d x = Fin 0")
  case True
  then show ?thesis using onMouseMoveHandler_still[OF act alw dat True, of P S] assms by simp
next
  case False
  obtain i where i: "viewLeftColumn d = Some i" using left by auto
  obtain j where j: "\<not> isRightEdge d \<longrightarrow> viewRightColumn d = Some j" using right by auto
  show ?thesis
    using onMouseMoveHandler_step[OF act alw dat cg i j False, of P S] act alw dat
    by (cases "isRightEdge d") simp_all
qed

lemma run_allowed_moves:
  assumes "isResizingActive s" and "isResizingAllowed s" and "resizingData s = Some d"
    and "viewColgroup (view s) = Some cols"
    and left: "viewLeftColumn d \<noteq> None" and right: "isRightEdge d \<or> viewRightColumn d \<noteq> None"
  shows "\<exists>s' cols'. run P S M s (map MouseMove xs) = Inr s'
           \<and> isResizingActive s' \<and> isResizingAllowed s' \<and> resizingData s' = Some d
           \<and> viewColgroup (view s') = Some cols' \<and> length cols' = length cols
           \<and> model s' = model s \<and> executed s' = executed s"
  using assms(1-4)
proof (induction xs arbitrary: s cols)
  case Nil
  then show ?case by simp
next
  case (Cons x xs)
  obtain s1 cols1 where s1: "onMouseMoveHandler P S M s x = Inr s1"
    "isResizingActive s1" "isResizingAllowed s1" "resizingData s1 = Some d"
    "viewColgroup (view s1) = Some cols1" "length cols1 = length cols"
    "model s1 = model s" "executed s1 = executed s"
    using onMouseMoveHandler_allowed[OF Cons.prems left right, of P S M x] by blast
  from Cons.IH[OF s1(2-5)] show ?case using s1 by (simp add: handle_def)
qed

lemma onMouseUpHandler_disallowed:
  assumes act: "isResizingActive s" and alw: "\<not> isResizingAllowed s"
    and dat: "resizingData s = Some d" and cg: "viewColgroup (view s) = Some cols"
    and tw: "modelTableWidth (model s) \<noteq> Some []"
    and cw: "case modelColumnWidths (model s) of None \<Rightarrow> True
             | Some w \<Rightarrow> w \<noteq> [] \<and> length (split_comma w) = length cols"
  shows "\<exists>s'. onMouseUpHandler P S s = Inr s' \<and> model s' = model s \<and> executed s' = executed s
           \<and> \<not> isResizingActive s' \<and> resizingData s' = None
           \<and> viewFigureStyleWidth (view s') = modelTableWidth (model s)
           \<and> (case modelColumnWidths (model s) of
                 None \<Rightarrow> viewColgroup (view s') = None
               | Some w \<Rightarrow> (\<exists>cols'. viewColgroup (view s') = Some cols'
                                   \<and> joinedColumnWidths cols' = w))"
proof (cases "modelColumnWidths (model s)")
  case None
  then show ?thesis using act alw dat cg tw
    by (cases "modelTableWidth (model s)")
       (auto simp: onMouseUpHandler_def Let_def revertView_def truthy_def)
next
  case (Some w)
  then have w: "w \<noteq> []" "length (split_comma w) = length cols" using cw by simp_all
  have r: "joinedColumnWidths (restoredColumns w cols) = w"
    by (simp add: restoredColumns_all[OF w(2)] joinedColumnWidths_Some join_split_comma)
  show ?thesis using act alw dat cg tw Some w(1) r
    by (cases "modelTableWidth (model s)")
       (auto simp: onMouseUpHandler_def Let_def revertView_def truthy_def)
qed


lemma run_disallowed_session:
  assumes alw: "isResizingAllowed s" and res: "targetIsResizer ev"
    and dat: "resizingData (onMouseDownHandler P S s ev) = Some d"
    and left: "viewLeftColumn d \<noteq> None" and right: "isRightEdge d \<or> viewRightColumn d \<noteq> None"
    and tw: "modelTableWidth (model s) \<noteq> Some []"
    and cw: "case modelColumnWidths (model s) of None \<Rightarrow> True
             | Some w \<Rightarrow> w \<noteq> []
                 \<and> (\<exists>cols. viewColgroup (view (onMouseDownHandler P S s ev)) = Some cols
                           \<and> length (split_comma w) = length cols)"
  shows "\<exists>s'. run P S M s (MouseDown ev # map MouseMove xs @ SetResizingAllowed False
                              # map MouseMove ys @ [MouseUp]) = Inr s'
           \<and> model s' = model s \<and> executed s' = executed s
           \<and> \<not> isResizingActive s' \<and> resizingData s' = None
           \<and> viewFigureStyleWidth (view s') = modelTableWidth (model s)
           \<and> (case modelColumnWidths (model s) of
                 None \<Rightarrow> viewColgroup (view s') = None
               | Some w \<Rightarrow> (\<exists>cols'. viewColgroup (view s') = Some cols'
                                   \<and> joinedColumnWidths cols' = w))"
proof -
  let ?s1 = "onMouseDownHandler P S s ev"
  have m1: "model ?s1 = model s" "executed ?s1 = executed s"
    by (rule onMouseDownHandler_model)+
  have a1: "isResizingActive ?s1" "isResizingAllowed ?s1"
    using onMouseDownHandler_opens(1,2)[OF res alw, of P S] by simp_all
  obtain cols1 where cols1: "viewColgroup (view ?s1) = Some cols1"
    using onMouseDownHandler_opens(4)[OF res alw, of P S] by blast
  obtain s2 cols2 where s2: "run P S M ?s1 (map MouseMove xs) = Inr s2"
    "isResizingActive s2" "resizingData s2 = Some d"
    "viewColgroup (view s2) = Some cols2" "length cols2 = length cols1"
    "model s2 = model s" "executed s2 = executed s"
    using run_allowed_moves[OF a1 dat cols1 left right, of P S M xs] m1 by auto
  let ?s3 = "s2\<lparr>isResizingAllowed := False\<rparr>"
  have cw3: "case modelColumnWidths (model ?s3) of None \<Rightarrow> True
             | Some w \<Rightarrow> w \<noteq> [] \<and> length (split_comma w) = length cols2"
    using cw cols1 s2(5,6) by (auto split: option.splits)
  have tw3: "modelTableWidth (model ?s3) \<noteq> Some []" using tw s2(6) by simp
  obtain s4 where s4: "onMouseUpHandler P S ?s3 = Inr s4" "model s4 = model s"
    "executed s4 = executed s" "\<not> isResizingActive s4" "resizingData s4 = None"
    "viewFigureStyleWidth (view s4) = modelTableWidth (model s)"
    "case modelColumnWidths (model s) of
       None \<Rightarrow> viewColgroup (view s4) = None
     | Some w \<Rightarrow> (\<exists>cols'. viewColgroup (view s4) = Some cols' \<and> joinedColumnWidths cols' = w)"
    using onMouseUpHandler_disallowed[of ?s3 d cols2 P S] s2 tw3 cw3 by auto
  have tail: "\<exists>s'. run P S M ?s3 (map MouseMove ys @ [MouseUp]) = Inr s'
           \<and> model s' = model s4 \<and> executed s' = executed s4
           \<and> \<not> isResizingActive s' \<and> resizingData s' = None \<and> view s' = view s4"
  proof (cases ys)
    case Nil
    then show ?thesis using s4 by (simp add: handle_def)
  next
    case (Cons y ys')
    have mv: "onMouseMoveHandler P S M ?s3 y = Inr s4"
      using s2(2) s4(1) by (simp add: onMouseMoveHandler_def)
    have "run P S M ?s3 (map MouseMove ys @ [MouseUp]) = Inr (s4\<lparr>isResizingAllowed := True\<rparr>)"
      using Cons mv run_idle_moves[OF s4(4), of P S M ys'] onMouseUpHandler_idle[OF s4(4), of P S]
      by (simp add: handle_def run_append)
    then show ?thesis using s4 by simp
  qed
  then obtain s' where s': "run P S M ?s3 (map MouseMove ys @ [MouseUp]) = Inr s'"
    "model s' = model s4" "executed s' = executed s4"
    "\<not> isResizingActive s'" "resizingData s' = None" "view s' = view s4"
    by blast
  have "run P S M s (MouseDown ev # map MouseMove xs @ SetResizingAllowed False
                              # map MouseMove ys @ [MouseUp]) = Inr s'"
    using s2(1) s' by (simp add: handle_def run_append)
  moreover have "viewFigureStyleWidth (view s') = modelTableWidth (model s)"
    using s'(6) s4(6) by simp
  moreover have "case modelColumnWidths (model s) of
                 None \<Rightarrow> viewColgroup (view s') = None
               | Some w \<Rightarrow> (\<exists>cols'. viewColgroup (view s') = Some cols'
                                   \<and> joinedColumnWidths cols' = w)"
    using s4(7) by (auto simp: s'(6) split: option.splits)
  ultimately show ?thesis using s'(2-5) s4(2,3) by auto
qed

text \<open>
  Claim C6. A cycle in which a press on a resizer opens a session, the pointer moves,
  resizing stops being allowed, the pointer may move again, and the button is released.
  The columns of the pressed resizer exist in the colgroup; the stored attributes are
  not empty strings, and the colgroup has as many columns as the \<open>columnWidths\<close>
  attribute, when there is one, has tokens. The cycle returns, executes no command and
  leaves the attributes of the table as they were. The width style of the figure is the
  stored \<open>tableWidth\<close> again, or is removed when there is none; the width styles of the
  colgroup, joined, are the stored \<open>columnWidths\<close> again, or the colgroup is removed when
  there is none. For a view that rendered the stored attributes before the press, these
  are the width styles it had then.
\<close>

theorem disallowed_session_reverts:
  assumes alw: "isResizingAllowed s" and res: "targetIsResizer ev"
    and dat: "resizingData (onMouseDownHandler P S s ev) = Some d"
    and left: "viewLeftColumn d \<noteq> None" and right: "isRightEdge d \<or> viewRightColumn d \<noteq> None"
    and tw: "modelTableWidth (model s) \<noteq> Some []"
    and cw: "case modelColumnWidths (model s) of None \<Rightarrow> True
             | Some w \<Rightarrow> w \<noteq> []
                 \<and> (\<exists>cols. viewColgroup (view (onMouseDownHandler P S s ev)) = Some cols
                           \<and> length (split_comma w) = length cols)"
  shows "\<exists>s'. run P S M s (MouseDown ev # map MouseMove xs @ SetResizingAllowed False
                              # map MouseMove ys @ [MouseUp]) = Inr s'
           \<and> model s' = model s \<and> executed s' = executed s
           \<and> \<not> isResizingActive s' \<and> resizingData s' = None
           \<and> viewFigureStyleWidth (view s') = modelTableWidth (model s)
           \<and> (case modelColumnWidths (model s) of
                 None \<Rightarrow> viewColgroup (view s') = None
               | Some w \<Rightarrow> (\<exists>cols'. viewColgroup (view s') = Some cols'
                                   \<and> joinedColumnWidths cols' = w))
           \<and> (viewFigureStyleWidth (view s) = modelTableWidth (model s)
                \<longrightarrow> viewFigureStyleWidth (view s') = viewFigureStyleWidth (view s))
           \<and> (viewColgroup (view s) = None \<and> modelColumnWidths (model s) = None
                \<longrightarrow> viewColgroup (view s') = viewColgroup (view s))
           \<and> (\<forall>cols0. viewColgroup (view s) = Some cols0
                        \<and> modelColumnWidths (model s) = Some (joinedColumnWidths cols0)
                \<longrightarrow> (\<exists>cols'. viewColgroup (view s') = Some cols'
                           \<and> joinedColumnWidths cols' = joinedColumnWidths cols0))"
proof -
  obtain s' where s': "run P S M s (MouseDown ev # map MouseMove xs @ SetResizingAllowed False
                              # map MouseMove ys @ [MouseUp]) = Inr s'"
    "model s' = model s" "executed s' = executed s"
    "\<not> isResizingActive s'" "resizingData s' = None"
    "viewFigureStyleWidth (view s') = modelTableWidth (model s)"
    "case modelColumnWidths (model s) of
       None \<Rightarrow> viewColgroup (view s') = None
     | Some w \<Rightarrow> (\<exists>cols'. viewColgroup (view s') = Some cols' \<and> joinedColumnWidths cols' = w)"
    using run_disallowed_session[OF alw res dat left right tw cw, of M xs ys] by blast
  have a: "viewFigureStyleWidth (view s) = modelTableWidth (model s)
             \<longrightarrow> viewFigureStyleWidth (view s') = viewFigureStyleWidth (view s)"
    using s'(6) by simp
  have b: "viewColgroup (view s) = None \<and> modelColumnWidths (model s) = None
             \<longrightarrow> viewColgroup (view s') = viewColgroup (view s)"
    using s'(7) by (auto split: option.splits)
  have c: "\<forall>cols0. viewColgroup (view s) = Some cols0
                        \<and> modelColumnWidths (model s) = Some (joinedColumnWidths cols0)
                \<longrightarrow> (\<exists>cols'. viewColgroup (view s') = Some cols'
                           \<and> joinedColumnWidths cols' = joinedColumnWidths cols0)"
    using s'(7) by (auto split: option.splits)
  show ?thesis using s' a b c by blast
qed

theorem disallowed_session_reverts_witness:
  "\<exists>s'. run toPrecision numberToString (Fin 40) resized
           (MouseDown (pressOn 0 100) # map MouseMove [Fin 110] @ SetResizingAllowed False
              # map MouseMove [Fin 120] @ [MouseUp]) = Inr s'
      \<and> model s' = model resized \<and> executed s' = []
      \<and> viewFigureStyleWidth (view s') = Some ''50%''
      \<and> (\<exists>cols'. viewColgroup (view s') = Some cols' \<and> joinedColumnWidths cols' = ''50%,50%'')"
proof -
  let ?d = "\<lparr>columnPosition = Fin 100, isRightEdge = False, isTableCentered = True,
             isLtrContent = True, viewResizer = 0, viewLeftColumn = Some 0,
             viewRightColumn = Some 1, viewFigureParentWidth = Fin 400,
             viewFigureWidth = Fin 200, tableWidth = Fin 200,
             leftColumnWidth = Some (Fin 100), rightColumnWidth = Some (Fin 100)\<rparr>"
  have dat: "resizingData (onMouseDownHandler toPrecision numberToString resized (pressOn 0 100)) = Some ?d"
    by code_simp
  have v: "viewColgroup (view (onMouseDownHandler toPrecision numberToString resized (pressOn 0 100)))
             = Some [Some ''50%'', Some ''50%'']"
    by code_simp
  have sp: "split_comma ''50%,50%'' = [''50%'', ''50%'']" by simp
  have m: "modelColumnWidths (model resized) = Some ''50%,50%''"
    "modelTableWidth (model resized) = Some ''50%''" "isResizingAllowed resized"
    "executed resized = []"
    by (simp_all add: resized_def)
  have r: "targetIsResizer (pressOn 0 100)" by (simp add: pressOn_def)
  have l: "viewLeftColumn ?d \<noteq> None" "isRightEdge ?d \<or> viewRightColumn ?d \<noteq> None" by simp_all
  have tw: "modelTableWidth (model resized) \<noteq> Some []" by (simp add: m)
  have cw: "case modelColumnWidths (model resized) of None \<Rightarrow> True
             | Some w \<Rightarrow> w \<noteq> []
                 \<and> (\<exists>cols. viewColgroup (view (onMouseDownHandler toPrecision numberToString resized (pressOn 0 100))) = Some cols
                           \<and> length (split_comma w) = length cols)"
    by (simp add: m v)
  from disallowed_session_reverts[OF m(3) r dat l tw cw, of "Fin 40" "[Fin 110]" "[Fin 120]"]
  show ?thesis using m by auto
qed

end
